theory Spec2Isabelle
  imports Complex_Main "HOL-Library.Word" "HOL-Library.Log_Nat"
begin

section \<open>The linkup client: data model\<close>

text \<open>
  A shallow embedding of \<^verbatim>\<open>linkup/types.go\<close>. Go's \<^verbatim>\<open>int\<close> and \<^verbatim>\<open>time.Duration\<close>
  are 64-bit signed integers; they are modelled as \<open>int\<close>, and every operation of the
  source that can leave the 64-bit range (\<^verbatim>\<open>min * (1 << attempt)\<close>,
  \<^verbatim>\<open>time.Duration(secs) * time.Second\<close>) is wrapped by \<open>wrap64\<close>. The process-wide
  \<^verbatim>\<open>lcg\<close> is a \<^verbatim>\<open>uint64\<close>, modelled as a 64-bit word. Strings and byte slices
  are \<open>string\<close>s (lists of 8-bit characters).
\<close>

type_synonym duration = int

definition wrap64 :: "int \<Rightarrow> int" where
  "wrap64 x = (x + 2 ^ 63) mod 2 ^ 64 - 2 ^ 63"

definition Millisecond :: duration where
  "Millisecond = 1000000"

definition Second :: duration where
  "Second = 1000000000"

record api_error =
  Status :: int
  Message :: string
  Details :: string

text \<open>
  The error values the package returns: \<^verbatim>\<open>errors.New(msg)\<close>, the two sentinels, a
  \<^verbatim>\<open>*APIError\<close>, \<^verbatim>\<open>fmt.Errorf("linkup: http %d", status)\<close>, and an error handed
  over by a library (\<^verbatim>\<open>encoding/json\<close>, \<^verbatim>\<open>net/http\<close>, \<^verbatim>\<open>io\<close>).
\<close>

datatype error =
    ErrorsNew string
  | ErrUnauthorized
  | ErrForbidden
  | APIErrorPtr api_error
  | ErrorfHTTP int
  | LibError string

text \<open>
  What \<^verbatim>\<open>c.http.Do\<close> hands back: an error, or a response with its status code, the
  value of \<^verbatim>\<open>res.Header.Get("Retry-After")\<close> (empty when the header is absent), the
  bytes its body reader delivers and the error that reader ends with, if any.
\<close>

record response =
  StatusCode :: int
  RetryAfter :: string
  Body :: string
  BodyErr :: "error option"

datatype transport_result = DoError error | DoResponse response

text \<open>An HTTP client is the script of its answers: the result of its \<open>k\<close>-th call.\<close>

type_synonym http_client = "nat \<Rightarrow> transport_result"

record client =
  apiKey :: string
  baseURL :: string
  ua :: string
  http :: http_client
  maxRetries :: int
  minBackoff :: duration
  maxBackoff :: duration

datatype depth = DepthStandard | DepthDeep

datatype output_type = OutputSourcedAnswer | OutputSearchResults | OutputStructured

record search_request =
  Q :: string
  Depth :: depth
  OutputType :: output_type
  IncludeImages :: bool
  FromDate :: string
  ToDate :: string
  ExcludeDomains :: "string list"
  IncludeDomains :: "string list"
  IncludeInlineCitations :: bool
  StructuredOutputSchema :: "string option"
  IncludeSources :: bool

record fetch_request =
  URL :: string
  IncludeRawHTML :: bool
  RenderJS :: bool
  ExtractImages :: bool

text \<open>
  The standard library the package calls, as parameters: the JSON encoder and decoder,
  the request constructor of \<^verbatim>\<open>net/http\<close> (its error, if any, for a method, a URL and
  a body), and the \<^verbatim>\<open>float64\<close> arithmetic of the machine: \<open>float64_round\<close> rounds
  the exact result of an operation to a \<^verbatim>\<open>float64\<close>, and
  \<open>float64_to_int64_range\<close> is what the conversion of a \<^verbatim>\<open>float64\<close> outside the
  64-bit range to an integer gives (Go leaves it to the implementation).
  \<open>json_Unmarshal b e\<close> is the \<^verbatim>\<open>APIError\<close> that \<^verbatim>\<open>json.Unmarshal(b, apiErr)\<close> leaves
  behind when \<^verbatim>\<open>*apiErr\<close> was \<open>e\<close>; the source drops the error it returns.
\<close>

record platform =
  json_Marshal_search :: "search_request \<Rightarrow> error + string"
  json_Marshal_fetch :: "fetch_request \<Rightarrow> error + string"
  http_NewRequest :: "string \<Rightarrow> string \<Rightarrow> string option \<Rightarrow> error option"
  json_Unmarshal :: "string \<Rightarrow> api_error \<Rightarrow> api_error"
  json_Decode_balance :: "response \<Rightarrow> error + rat"
  float64_round :: "rat \<Rightarrow> rat"
  float64_to_int64_range :: "rat \<Rightarrow> int"

text \<open>
  The effects of a call, recorded: how many times the transport was invoked, the
  arguments of \<^verbatim>\<open>time.Sleep\<close> in order, the number of bytes each \<^verbatim>\<open>io.ReadAll\<close> took
  from a response body, and the state of the generator \<^verbatim>\<open>lcg\<close>.
\<close>

record world =
  calls :: nat
  sleeps :: "duration list"
  reads :: "nat list"
  lcg :: "64 word"

section \<open>Construction\<close>

definition defaultBaseURL :: string where
  "defaultBaseURL = ''https://api.linkup.so/v1''"

definition defaultUA :: string where
  "defaultUA = ''linkup-go/0.1 (+github.com/raezil/linkup-go)''"

datatype client_option =
    WithBaseURL string
  | WithHTTPClient http_client
  | WithUserAgent string
  | WithRetry int duration duration

definition strings_TrimRight :: "string \<Rightarrow> char \<Rightarrow> string" where
  "strings_TrimRight u ch = rev (dropWhile (\<lambda>x. x = ch) (rev u))"

fun apply_option :: "client_option \<Rightarrow> client \<Rightarrow> client" where
  "apply_option (WithBaseURL u) c = c\<lparr>baseURL := strings_TrimRight u (CHR ''/'')\<rparr>"
| "apply_option (WithHTTPClient h) c = c\<lparr>http := h\<rparr>"
| "apply_option (WithUserAgent a) c = c\<lparr>ua := a\<rparr>"
| "apply_option (WithRetry r mn mx) c =
     (let c1 = (if r \<ge> 0 then c\<lparr>maxRetries := r\<rparr> else c);
          c2 = (if mn > 0 then c1\<lparr>minBackoff := mn\<rparr> else c1)
      in if mx \<ge> minBackoff c2 then c2\<lparr>maxBackoff := mx\<rparr> else c2)"

text \<open>
  \<open>NewClient net key opts\<close>: \<open>net\<close> stands for the default
  \<^verbatim>\<open>&http.Client{Timeout: 30 * time.Second}\<close>, the options are applied in order.
\<close>

definition NewClient :: "http_client \<Rightarrow> string \<Rightarrow> client_option list \<Rightarrow> client" where
  "NewClient net key opts =
     fold apply_option opts
       \<lparr>apiKey = key, baseURL = defaultBaseURL, ua = defaultUA, http = net,
        maxRetries = 3, minBackoff = 250 * Millisecond, maxBackoff = 4 * Second\<rparr>"

section \<open>Effects\<close>

definition http_Do :: "client \<Rightarrow> world \<Rightarrow> transport_result \<times> world" where
  "http_Do c w = (http c (calls w), w\<lparr>calls := Suc (calls w)\<rparr>)"

definition time_Sleep :: "duration \<Rightarrow> world \<Rightarrow> world" where
  "time_Sleep d w = w\<lparr>sleeps := sleeps w @ [d]\<rparr>"

text \<open>\<^verbatim>\<open>io.ReadAll(res.Body)\<close>: the bytes read and the reader's error.\<close>

definition io_ReadAll :: "response \<Rightarrow> world \<Rightarrow> (string \<times> error option) \<times> world" where
  "io_ReadAll res w =
     ((Body res, BodyErr res), w\<lparr>reads := reads w @ [length (Body res)]\<rparr>)"

text \<open>
  \<^verbatim>\<open>io.ReadAll(io.LimitReader(res.Body, n))\<close>: at most \<open>n\<close> bytes; the reader's error is
  met only when the body ends before the limit.
\<close>

definition io_ReadAll_LimitReader ::
  "nat \<Rightarrow> response \<Rightarrow> world \<Rightarrow> (string \<times> error option) \<times> world" where
  "io_ReadAll_LimitReader n res w =
     (let b = take n (Body res)
      in ((b, if length (Body res) < n then BodyErr res else None),
          w\<lparr>reads := reads w @ [length b]\<rparr>))"

section \<open>Retry-After parsing\<close>

fun parse_digits :: "string \<Rightarrow> int \<Rightarrow> int option" where
  "parse_digits [] acc = Some acc"
| "parse_digits (ch # cs) acc =
     (let n = (of_char ch :: nat)
      in if 48 \<le> n \<and> n \<le> 57 then parse_digits cs (acc * 10 + int (n - 48)) else None)"

text \<open>
  \<^verbatim>\<open>strconv.Atoi\<close> on a 64-bit platform: an optional sign, at least one decimal digit and
  nothing else, and a result in the 64-bit range; \<open>None\<close> is a non-nil error.
\<close>

definition strconv_Atoi :: "string \<Rightarrow> int option" where
  "strconv_Atoi s =
     (let neg = (s \<noteq> [] \<and> hd s = CHR ''-'');
          ds = (if s \<noteq> [] \<and> (hd s = CHR ''-'' \<or> hd s = CHR ''+'') then tl s else s)
      in if ds = [] then None
         else (case parse_digits ds 0 of
                 None \<Rightarrow> None
               | Some n \<Rightarrow>
                   (let v = (if neg then - n else n)
                    in if - (2 ^ 63) \<le> v \<and> v < 2 ^ 63 then Some v else None)))"

section \<open>Backoff\<close>

text \<open>
  \<^verbatim>\<open>lcg = lcg*2862933555777941757 + 3037000493\<close> on \<^verbatim>\<open>uint64\<close>, then
  \<^verbatim>\<open>float64(lcg%10000) / 10000.0\<close>.
\<close>

definition randFloat :: "platform \<Rightarrow> world \<Rightarrow> rat \<times> world" where
  "randFloat P w =
     (let l = lcg w * 2862933555777941757 + 3037000493
      in (float64_round P (of_nat (unat l mod 10000) / 10000), w\<lparr>lcg := l\<rparr>))"

text \<open>Go's conversion of a \<^verbatim>\<open>float64\<close> to an integer drops the fraction.\<close>

definition float64_to_int64 :: "platform \<Rightarrow> rat \<Rightarrow> int" where
  "float64_to_int64 P x =
     (let t = (if 0 \<le> x then \<lfloor>x\<rfloor> else \<lceil>x\<rceil>)
      in if - (2 ^ 63) \<le> t \<and> t < 2 ^ 63 then t else float64_to_int64_range P x)"

text \<open>
  \<^verbatim>\<open>0.8 + 0.4*randFloat()\<close>: the constants become \<^verbatim>\<open>float64\<close>s, and each operation
  rounds its result (the product and the sum are not fused, as on amd64).
\<close>

definition jitter :: "platform \<Rightarrow> rat \<Rightarrow> rat" where
  "jitter P r =
     float64_round P (float64_round P (4 / 5) + float64_round P (float64_round P (2 / 5) * r))"

text \<open>
  \<^verbatim>\<open>backoff(attempt, min, max)\<close>. The attempt is a \<open>nat\<close>: the loop counts it up from
  0. \<^verbatim>\<open>1 << attempt\<close> has the type of \<^verbatim>\<open>min\<close>, so the shift and the product are
  taken in 64 bits.
\<close>

definition backoff :: "platform \<Rightarrow> nat \<Rightarrow> duration \<Rightarrow> duration \<Rightarrow> world \<Rightarrow> duration \<times> world" where
  "backoff P attempt mn mx w =
     (let d0 = wrap64 (mn * wrap64 (2 ^ attempt));
          d = (if d0 > mx then mx else d0);
          (r, w') = randFloat P w;
          j = float64_to_int64 P (float64_round P (float64_round P (of_int d) * jitter P r))
      in (j, w'))"

definition sleep_backoff :: "platform \<Rightarrow> client \<Rightarrow> nat \<Rightarrow> world \<Rightarrow> world" where
  "sleep_backoff P c attempt w =
     (let (d, w') = backoff P attempt (minBackoff c) (maxBackoff c) w in time_Sleep d w')"

section \<open>Search\<close>

datatype 'a step = Return 'a | Continue

text \<open>
  One pass through the body of the \<^verbatim>\<open>for attempt := 0; ; attempt++\<close> loop of
  \<^verbatim>\<open>Search\<close>: it returns, or it sleeps and goes on to the next attempt. The headers
  of the request and the deferred \<^verbatim>\<open>res.Body.Close()\<close> change nothing that the world
  records. The context is not a parameter of its own: what it does to the request
  constructor and to the transport is in their results (a cancelled context makes
  \<^verbatim>\<open>c.http.Do\<close> return an error).
\<close>

definition search_attempt ::
  "platform \<Rightarrow> client \<Rightarrow> string \<Rightarrow> string \<Rightarrow> nat \<Rightarrow> world \<Rightarrow> (error + string) step \<times> world" where
  "search_attempt P c url body attempt w =
     (case http_NewRequest P ''POST'' url (Some body) of
        Some err \<Rightarrow> (Return (Inl err), w)
      | None \<Rightarrow>
          (case http_Do c w of
             (DoError err, w1) \<Rightarrow>
               if int attempt < maxRetries c
               then (Continue, sleep_backoff P c attempt w1)
               else (Return (Inl err), w1)
           | (DoResponse res, w1) \<Rightarrow>
               if StatusCode res < 200 \<or> StatusCode res \<ge> 300 then
                 (let ((b, _), w2) = io_ReadAll_LimitReader 1048576 res w1;
                      apiErr = json_Unmarshal P b
                                 \<lparr>Status = StatusCode res, Message = [], Details = []\<rparr>;
                      shouldRetry = (StatusCode res = 429 \<or>
                                     (StatusCode res \<ge> 500 \<and> StatusCode res \<le> 599))
                  in if shouldRetry \<and> int attempt < maxRetries c then
                       (if RetryAfter res \<noteq> [] then
                          (case strconv_Atoi (RetryAfter res) of
                             Some secs \<Rightarrow>
                               if secs > 0
                               then (Continue, time_Sleep (wrap64 (secs * Second)) w2)
                               else (Continue, sleep_backoff P c attempt w2)
                           | None \<Rightarrow> (Continue, sleep_backoff P c attempt w2))
                        else (Continue, sleep_backoff P c attempt w2))
                     else if StatusCode res = 401 then (Return (Inl ErrUnauthorized), w2)
                     else if StatusCode res = 403 then (Return (Inl ErrForbidden), w2)
                     else if Message apiErr \<noteq> [] then (Return (Inl (APIErrorPtr apiErr)), w2)
                     else (Return (Inl (ErrorfHTTP (StatusCode res))), w2))
               else
                 (case io_ReadAll res w1 of
                    ((b, Some err), w2) \<Rightarrow> (Return (Inl err), w2)
                  | ((b, None), w2) \<Rightarrow> (Return (Inr b), w2))))"

function search_loop ::
  "platform \<Rightarrow> client \<Rightarrow> string \<Rightarrow> string \<Rightarrow> nat \<Rightarrow> world \<Rightarrow> (error + string) \<times> world" where
  "search_loop P c url body attempt w =
     (case search_attempt P c url body attempt w of
        (Return r, w') \<Rightarrow> (r, w')
      | (Continue, w') \<Rightarrow> search_loop P c url body (Suc attempt) w')"
  by pat_completeness auto
termination
proof (relation "measure (\<lambda>(P, c, url, body, attempt, w). nat (maxRetries c - int attempt))")
  show "wf (measure (\<lambda>(P, c, url, body, attempt, w). nat (maxRetries c - int attempt)))"
    by simp
next
  fix P :: platform and c :: client and url body :: string and attempt :: nat
    and w w' :: world and s :: "(error + string) step"
  assume a: "(s, w') = search_attempt P c url body attempt w" "s = Continue"
  then have "search_attempt P c url body attempt w = (Continue, w')"
    by simp
  then have "int attempt < maxRetries c"
    by (auto simp: search_attempt_def Let_def split: option.splits prod.splits
          transport_result.splits if_splits)
  then show "((P, c, url, body, Suc attempt, w'), (P, c, url, body, attempt, w))
      \<in> measure (\<lambda>(P, c, url, body, attempt, w). nat (maxRetries c - int attempt))"
    by simp
qed

declare search_loop.simps [simp del]

text \<open>
  \<^verbatim>\<open>Search\<close>: the result is the payload \<^verbatim>\<open>SearchResponse.Raw\<close> (\<open>Inr\<close>) or the error
  (\<open>Inl\<close>).
\<close>

definition Search ::
  "platform \<Rightarrow> client \<Rightarrow> search_request \<Rightarrow> world \<Rightarrow> (error + string) \<times> world" where
  "Search P c req w =
     (if apiKey c = [] then (Inl (ErrorsNew ''linkup: API key is empty''), w)
      else (case json_Marshal_search P req of
              Inl err \<Rightarrow> (Inl err, w)
            | Inr body \<Rightarrow> search_loop P c (baseURL c @ ''/search'') body 0 w))"

section \<open>Fetch and GetBalance\<close>

definition Fetch ::
  "platform \<Rightarrow> client \<Rightarrow> fetch_request \<Rightarrow> world \<Rightarrow> (error + string) \<times> world" where
  "Fetch P c req w =
     (if apiKey c = [] then (Inl (ErrorsNew ''linkup: API key is empty''), w)
      else if URL req = [] then (Inl (ErrorsNew ''linkup: fetch url is empty''), w)
      else (case json_Marshal_fetch P req of
              Inl err \<Rightarrow> (Inl err, w)
            | Inr body \<Rightarrow>
                (case http_NewRequest P ''POST'' (baseURL c @ ''/fetch'') (Some body) of
                   Some err \<Rightarrow> (Inl err, w)
                 | None \<Rightarrow>
                     (case http_Do c w of
                        (DoError err, w1) \<Rightarrow> (Inl err, w1)
                      | (DoResponse res, w1) \<Rightarrow>
                          if StatusCode res = 401 then (Inl ErrUnauthorized, w1)
                          else if StatusCode res = 403 then (Inl ErrForbidden, w1)
                          else if StatusCode res < 200 \<or> StatusCode res \<ge> 300 then
                            (let ((b, _), w2) = io_ReadAll_LimitReader 1048576 res w1;
                                 apiErr = json_Unmarshal P b
                                   \<lparr>Status = StatusCode res, Message = [], Details = []\<rparr>
                             in if Message apiErr \<noteq> [] then (Inl (APIErrorPtr apiErr), w2)
                                else (Inl (ErrorfHTTP (StatusCode res)), w2))
                          else
                            (case io_ReadAll res w1 of
                               ((b, Some err), w2) \<Rightarrow> (Inl err, w2)
                             | ((b, None), w2) \<Rightarrow> (Inr b, w2))))))"

text \<open>
  \<^verbatim>\<open>GetBalance\<close>: the result is \<^verbatim>\<open>BalanceResponse.Balance\<close> or the error. The success
  path hands the body to \<^verbatim>\<open>json.NewDecoder(res.Body).Decode\<close>.
\<close>

definition GetBalance :: "platform \<Rightarrow> client \<Rightarrow> world \<Rightarrow> (error + rat) \<times> world" where
  "GetBalance P c w =
     (if apiKey c = [] then (Inl (ErrorsNew ''linkup: API key is empty''), w)
      else (case http_NewRequest P ''GET'' (baseURL c @ ''/credits/balance'') None of
              Some err \<Rightarrow> (Inl err, w)
            | None \<Rightarrow>
                (case http_Do c w of
                   (DoError err, w1) \<Rightarrow> (Inl err, w1)
                 | (DoResponse res, w1) \<Rightarrow>
                     if StatusCode res = 401 then (Inl ErrUnauthorized, w1)
                     else if StatusCode res = 403 then (Inl ErrForbidden, w1)
                     else if StatusCode res < 200 \<or> StatusCode res \<ge> 300 then
                       (let ((b, _), w2) = io_ReadAll_LimitReader 1048576 res w1;
                            apiErr = json_Unmarshal P b
                              \<lparr>Status = StatusCode res, Message = [], Details = []\<rparr>
                        in if Message apiErr \<noteq> [] then (Inl (APIErrorPtr apiErr), w2)
                           else (Inl (ErrorfHTTP (StatusCode res)), w2))
                     else (json_Decode_balance P res, w1))))"

section \<open>A platform for concrete runs\<close>

text \<open>
  The functions above take the library as a parameter. For runs on concrete inputs the
  parameter is \<open>test_platform\<close>: encoders that never fail, a request constructor that
  accepts every URL, \<open>binary64\<close> for \<^verbatim>\<open>float64\<close> (with the result of amd64 for a
  conversion out of range, the smallest 64-bit integer), and \<open>flat_Unmarshal\<close> as the
  decoder. \<open>flat_Unmarshal\<close> covers one fragment of JSON, on which it does what
  \<^verbatim>\<open>json.Unmarshal\<close> does with an \<^verbatim>\<open>*APIError\<close>: a single object whose members are
  strings of printable ASCII without escapes or integer literals (\<open>parse_object\<close>
  accepts exactly these). The members are taken in order, and a member sets the field
  whose name it matches up to case, when its type fits (\<^verbatim>\<open>status\<close> an integer of 64
  bits, \<^verbatim>\<open>message\<close> a string, \<^verbatim>\<open>details\<close> the raw text); a member that fits no field
  is skipped. On every other body \<open>flat_Unmarshal\<close> leaves the \<^verbatim>\<open>APIError\<close> as it
  was. That is what \<^verbatim>\<open>json.Unmarshal\<close> does with a body that is not JSON, and it is
  not what \<^verbatim>\<open>json.Unmarshal\<close> does with JSON outside the fragment (nested values,
  booleans, \<^verbatim>\<open>null\<close>, fractions, escapes, bytes above 126): \<open>flat_Unmarshal\<close> stands for
  \<^verbatim>\<open>json.Unmarshal\<close> only on objects of the fragment and on bodies that are not JSON,
  and the runs below use no other body.
\<close>

datatype json_token = TPunct char | TStr string | TNum string

definition is_ws :: "char \<Rightarrow> bool" where
  "is_ws ch = (ch = CHR '' '' \<or> ch = CHR 0x09 \<or> ch = CHR 0x0A \<or> ch = CHR 0x0D)"

definition is_punct :: "char \<Rightarrow> bool" where
  "is_punct ch = (ch = CHR ''{'' \<or> ch = CHR ''}'' \<or> ch = CHR '':'' \<or> ch = CHR '','')"

definition is_digit :: "char \<Rightarrow> bool" where
  "is_digit ch = (48 \<le> (of_char ch :: nat) \<and> (of_char ch :: nat) \<le> 57)"

definition tok_cons :: "json_token \<Rightarrow> json_token list option \<Rightarrow> json_token list option" where
  "tok_cons t r = map_option (\<lambda>ts. t # ts) r"

fun lex_out :: "string \<Rightarrow> json_token list option"
  and lex_str :: "string \<Rightarrow> string \<Rightarrow> json_token list option"
  and lex_num :: "string \<Rightarrow> string \<Rightarrow> json_token list option" where
  "lex_out [] = Some []"
| "lex_out (ch # cs) =
     (if is_ws ch then lex_out cs
      else if is_punct ch then tok_cons (TPunct ch) (lex_out cs)
      else if ch = CHR 0x22 then lex_str [] cs
      else if is_digit ch \<or> ch = CHR ''-'' then lex_num [ch] cs
      else None)"
| "lex_str acc [] = None"
| "lex_str acc (ch # cs) =
     (if ch = CHR 0x22 then tok_cons (TStr (rev acc)) (lex_out cs)
      else if ch = CHR 0x5C \<or> (of_char ch :: nat) < 32 \<or> (of_char ch :: nat) > 126 then None
      else lex_str (ch # acc) cs)"
| "lex_num acc [] = Some [TNum (rev acc)]"
| "lex_num acc (ch # cs) =
     (if is_digit ch then lex_num (ch # acc) cs
      else if is_ws ch then tok_cons (TNum (rev acc)) (lex_out cs)
      else if is_punct ch then tok_cons (TNum (rev acc)) (tok_cons (TPunct ch) (lex_out cs))
      else None)"

text \<open>An integer literal of JSON: no leading zero, at least one digit.\<close>

definition int_literal :: "string \<Rightarrow> int option" where
  "int_literal s =
     (let ds = (if s \<noteq> [] \<and> hd s = CHR ''-'' then tl s else s)
      in if ds = [] \<or> (hd ds = CHR ''0'' \<and> tl ds \<noteq> []) then None
         else map_option (\<lambda>n. if s \<noteq> [] \<and> hd s = CHR ''-'' then - n else n) (parse_digits ds 0))"

fun is_member_value :: "json_token \<Rightarrow> bool" where
  "is_member_value (TStr s) = True"
| "is_member_value (TNum n) = (int_literal n \<noteq> None)"
| "is_member_value (TPunct p) = False"

fun parse_members :: "json_token list \<Rightarrow> (string \<times> json_token) list option" where
  "parse_members (TStr k # TPunct p # v # TPunct q # rest) =
     (if p = CHR '':'' \<and> is_member_value v then
        (if q = CHR '','' \<and> rest \<noteq> [] then map_option (\<lambda>ms. (k, v) # ms) (parse_members rest)
         else if q = CHR ''}'' \<and> rest = [] then Some [(k, v)]
         else None)
      else None)"
| "parse_members ts = None"

definition parse_object :: "string \<Rightarrow> (string \<times> json_token) list option" where
  "parse_object b =
     (case lex_out b of
        None \<Rightarrow> None
      | Some ts \<Rightarrow>
          if ts = [TPunct (CHR ''{''), TPunct (CHR ''}'')] then Some []
          else (case ts of
                  TPunct p # rest \<Rightarrow> if p = CHR ''{'' then parse_members rest else None
                | _ \<Rightarrow> None))"

definition to_lower :: "char \<Rightarrow> char" where
  "to_lower ch =
     (if 65 \<le> (of_char ch :: nat) \<and> (of_char ch :: nat) \<le> 90
      then char_of ((of_char ch :: nat) + 32) else ch)"

fun set_field :: "string \<times> json_token \<Rightarrow> api_error \<Rightarrow> api_error" where
  "set_field (k, v) e =
     (if map to_lower k = ''status'' then
        (case v of
           TNum n \<Rightarrow>
             (case int_literal n of
                Some i \<Rightarrow> if - (2 ^ 63) \<le> i \<and> i < 2 ^ 63 then e\<lparr>Status := i\<rparr> else e
              | None \<Rightarrow> e)
         | _ \<Rightarrow> e)
      else if map to_lower k = ''message'' then
        (case v of TStr s \<Rightarrow> e\<lparr>Message := s\<rparr> | _ \<Rightarrow> e)
      else if map to_lower k = ''details'' then
        (case v of
           TStr s \<Rightarrow> e\<lparr>Details := [CHR 0x22] @ s @ [CHR 0x22]\<rparr>
         | TNum n \<Rightarrow> e\<lparr>Details := n\<rparr>
         | _ \<Rightarrow> e)
      else e)"

definition flat_Unmarshal :: "string \<Rightarrow> api_error \<Rightarrow> api_error" where
  "flat_Unmarshal b e = (case parse_object b of None \<Rightarrow> e | Some ms \<Rightarrow> fold set_field ms e)"




text \<open>
  Rounding to \<^verbatim>\<open>float64\<close> (IEEE 754 binary64, round to nearest, ties to even), for
  values between the smallest normal and the largest finite \<^verbatim>\<open>float64\<close>, where every
  value of this program lies: \<open>binade x\<close> is the exponent \<open>e\<close> with
  \<open>2 ^ e \<le> x < 2 ^ (e + 1)\<close>, and \<open>x\<close> is rounded to a multiple of \<open>2 ^ (e - 52)\<close>.
\<close>

definition round_half_even :: "rat \<Rightarrow> int" where
  "round_half_even x =
     (let f = \<lfloor>x\<rfloor>; t = x - of_int f
      in if t < 1 / 2 then f else if 1 / 2 < t then f + 1 else if even f then f else f + 1)"

definition binade :: "rat \<Rightarrow> int" where
  "binade x =
     (let (p, q) = quotient_of x; e0 = bitlen p - bitlen q
      in if 2 powi e0 \<le> x then e0 else e0 - 1)"

definition binary64 :: "rat \<Rightarrow> rat" where
  "binary64 x =
     (if x = 0 then 0
      else (let u = 2 powi (binade \<bar>x\<bar> - 52) in of_int (round_half_even (x / u)) * u))"

definition test_platform :: platform where
  "test_platform =
     \<lparr>json_Marshal_search = (\<lambda>req. Inr (''{'' @ [CHR 0x22, CHR ''q'', CHR 0x22] @ '':''
                                         @ [CHR 0x22] @ Q req @ [CHR 0x22] @ ''}'')),
      json_Marshal_fetch = (\<lambda>req. Inr (''{'' @ [CHR 0x22] @ ''url'' @ [CHR 0x22] @ '':''
                                         @ [CHR 0x22] @ URL req @ [CHR 0x22] @ ''}'')),
      http_NewRequest = (\<lambda>m u b. None),
      json_Unmarshal = flat_Unmarshal,
      json_Decode_balance = (\<lambda>res. Inl (LibError ''json: decode'')),
      float64_round = binary64,
      float64_to_int64_range = (\<lambda>x. - (2 ^ 63))\<rparr>"

text \<open>A transport that answers from a list, then with a fixed result.\<close>

definition script :: "transport_result list \<Rightarrow> transport_result \<Rightarrow> http_client" where
  "script rs d k = (if k < length rs then rs ! k else d)"

definition reply :: "int \<Rightarrow> string \<Rightarrow> string \<Rightarrow> transport_result" where
  "reply st ra b = DoResponse \<lparr>StatusCode = st, RetryAfter = ra, Body = b, BodyErr = None\<rparr>"

definition world0 :: world where
  "world0 = \<lparr>calls = 0, sleeps = [], reads = [], lcg = 0\<rparr>"

definition test_request :: search_request where
  "test_request =
     \<lparr>Q = ''x'', Depth = DepthStandard, OutputType = OutputSearchResults,
      IncludeImages = False, FromDate = [], ToDate = [], ExcludeDomains = [],
      IncludeDomains = [], IncludeInlineCitations = False,
      StructuredOutputSchema = None, IncludeSources = False\<rparr>"

definition test_fetch :: fetch_request where
  "test_fetch = \<lparr>URL = ''https://x'', IncludeRawHTML = False, RenderJS = False, ExtractImages = False\<rparr>"

text \<open>The client of the package's tests, over a scripted transport.\<close>

definition test_client :: "http_client \<Rightarrow> client" where
  "test_client h = NewClient h ''test-key'' [WithRetry 2 Millisecond (5 * Millisecond)]"

definition net_502_502_200 :: http_client where
  "net_502_502_200 = script [reply 502 [] ''boom'', reply 502 [] ''boom''] (reply 200 [] ''ok'')"

definition net_503 :: http_client where
  "net_503 = script [] (reply 503 [] ''down'')"

definition net_401 :: http_client where
  "net_401 = script [] (reply 401 [] ''nope'')"

definition net_403 :: http_client where
  "net_403 = script [] (reply 403 [] ''nope'')"






definition net_503_retry_after :: "string \<Rightarrow> http_client" where
  "net_503_retry_after ra = script [reply 503 ra ''busy''] (reply 200 [] ''ok'')"

section \<open>Floating point and the base delay\<close>

text \<open>
  What the proofs use of \<^verbatim>\<open>float64\<close> arithmetic, on the values that are not negative:
  rounding is monotone, it leaves a \<^verbatim>\<open>float64\<close> as it is, it is exact on \<open>i / 2 ^ k\<close>
  for \<open>0 \<le> i \<le> 2 ^ 53\<close> and \<open>k \<le> 64\<close> (53 bits of mantissa, far from underflow), and
  the \<^verbatim>\<open>float64\<close> of the constant 0.8 is not below 0.8. \<open>binary64\<close> has these
  properties (\<open>float64_sound_binary64\<close> below).
\<close>

definition float64_sound :: "(rat \<Rightarrow> rat) \<Rightarrow> bool" where
  "float64_sound R =
     ((\<forall>x y. 0 \<le> x \<and> x \<le> y \<longrightarrow> R x \<le> R y)
      \<and> (\<forall>x. 0 \<le> x \<longrightarrow> R (R x) = R x)
      \<and> (\<forall>i k. 0 \<le> i \<and> i \<le> 2 ^ 53 \<and> k \<le> 64 \<longrightarrow> R (of_int i / 2 ^ k) = of_int i / 2 ^ k)
      \<and> 4 / 5 \<le> R (4 / 5))"

text \<open>The base delay of the specification: \<open>min * 2 ^ n\<close>, clamped to \<open>max\<close>.\<close>

definition base_delay :: "nat \<Rightarrow> duration \<Rightarrow> duration \<Rightarrow> duration" where
  "base_delay n mn mx = min (mn * 2 ^ n) mx"

section \<open>The classification of the specification\<close>

text \<open>
  The outcome of one attempt in the words of the specification: a transport failure,
  429 and 5xx are retryable; 401, 403 and every other status outside [200,300) are
  terminal; [200,300) is success.
\<close>

datatype outcome = Success | RetryableFailure | TerminalFailure

definition classify :: "transport_result \<Rightarrow> outcome" where
  "classify t =
     (case t of
        DoError err \<Rightarrow> RetryableFailure
      | DoResponse res \<Rightarrow>
          if StatusCode res = 401 \<or> StatusCode res = 403 then TerminalFailure
          else if StatusCode res = 429 \<or> (500 \<le> StatusCode res \<and> StatusCode res \<le> 599)
          then RetryableFailure
          else if 200 \<le> StatusCode res \<and> StatusCode res < 300 then Success
          else TerminalFailure)"

text \<open>
  What \<^verbatim>\<open>Search\<close> returns when its loop stops at an attempt whose transport result
  is \<open>t\<close>: the \<^verbatim>\<open>switch\<close> on the status code and the success path of the source.
\<close>

definition final_result :: "platform \<Rightarrow> transport_result \<Rightarrow> error + string" where
  "final_result P t =
     (case t of
        DoError err \<Rightarrow> Inl err
      | DoResponse res \<Rightarrow>
          if StatusCode res < 200 \<or> StatusCode res \<ge> 300 then
            (let apiErr = json_Unmarshal P (take 1048576 (Body res))
                            \<lparr>Status = StatusCode res, Message = [], Details = []\<rparr>
             in if StatusCode res = 401 then Inl ErrUnauthorized
                else if StatusCode res = 403 then Inl ErrForbidden
                else if Message apiErr \<noteq> [] then Inl (APIErrorPtr apiErr)
                else Inl (ErrorfHTTP (StatusCode res)))
          else (case BodyErr res of Some err \<Rightarrow> Inl err | None \<Rightarrow> Inr (Body res)))"

text \<open>
  The bytes one attempt of \<^verbatim>\<open>Search\<close> takes from the body of its response: up to
  1 MiB outside [200,300), the whole body inside.
\<close>

definition attempt_reads :: "transport_result \<Rightarrow> nat list" where
  "attempt_reads t =
     (case t of
        DoError err \<Rightarrow> []
      | DoResponse res \<Rightarrow>
          if StatusCode res < 200 \<or> StatusCode res \<ge> 300
          then [length (take 1048576 (Body res))] else [length (Body res)])"

text \<open>
  The \<^verbatim>\<open>ConfigurationError\<close> of the specification: the two errors the package returns
  before it builds a request.
\<close>

definition ConfigurationError :: "error \<Rightarrow> bool" where
  "ConfigurationError e =
     (e = ErrorsNew ''linkup: API key is empty'' \<or> e = ErrorsNew ''linkup: fetch url is empty'')"

text \<open>A request is built: the encoder and the request constructor return no error.\<close>

definition search_request_built :: "platform \<Rightarrow> client \<Rightarrow> search_request \<Rightarrow> bool" where
  "search_request_built P c req =
     (apiKey c \<noteq> [] \<and>
      (case json_Marshal_search P req of
         Inl err \<Rightarrow> False
       | Inr body \<Rightarrow> http_NewRequest P ''POST'' (baseURL c @ ''/search'') (Some body) = None))"

definition fetch_request_built :: "platform \<Rightarrow> client \<Rightarrow> fetch_request \<Rightarrow> bool" where
  "fetch_request_built P c req =
     (apiKey c \<noteq> [] \<and> URL req \<noteq> [] \<and>
      (case json_Marshal_fetch P req of
         Inl err \<Rightarrow> False
       | Inr body \<Rightarrow> http_NewRequest P ''POST'' (baseURL c @ ''/fetch'') (Some body) = None))"

definition balance_request_built :: "platform \<Rightarrow> client \<Rightarrow> bool" where
  "balance_request_built P c =
     (apiKey c \<noteq> [] \<and> http_NewRequest P ''GET'' (baseURL c @ ''/credits/balance'') None = None)"

section \<open>The attempt loop\<close>

lemma sleep_backoff_frame:
  "calls (sleep_backoff P c a w) = calls w"
  "reads (sleep_backoff P c a w) = reads w"
  "sleeps (sleep_backoff P c a w) = sleeps w @ [fst (backoff P a (minBackoff c) (maxBackoff c) w)]"
  by (simp_all add: sleep_backoff_def backoff_def randFloat_def time_Sleep_def Let_def split: prod.splits)

lemma search_attempt_retry:
  assumes "http_NewRequest P ''POST'' url (Some body) = None"
    and "classify (http c (calls w)) = RetryableFailure"
    and "int a < maxRetries c"
  shows "\<exists>w'. search_attempt P c url body a w = (Continue, w') \<and> calls w' = Suc (calls w)
            \<and> (\<exists>d. sleeps w' = sleeps w @ [d])
            \<and> reads w' = reads w @ attempt_reads (http c (calls w))"
  using assms
  by (auto simp: search_attempt_def classify_def http_Do_def io_ReadAll_LimitReader_def
        sleep_backoff_frame time_Sleep_def attempt_reads_def Let_def
      split: transport_result.splits option.splits if_splits)

lemma search_attempt_stop:
  assumes "http_NewRequest P ''POST'' url (Some body) = None"
    and "classify (http c (calls w)) \<noteq> RetryableFailure \<or> \<not> int a < maxRetries c"
  shows "\<exists>w'. search_attempt P c url body a w = (Return (final_result P (http c (calls w))), w')
            \<and> calls w' = Suc (calls w) \<and> sleeps w' = sleeps w
            \<and> reads w' = reads w @ attempt_reads (http c (calls w))"
  using assms
  by (auto simp: search_attempt_def classify_def final_result_def http_Do_def
        io_ReadAll_LimitReader_def io_ReadAll_def attempt_reads_def Let_def
      split: transport_result.splits option.splits if_splits)

text \<open>
  The loop, started at attempt \<open>a\<close>: when the next \<open>k\<close> transport results are retryable
  and retries remain for each of them, and the one after them is not retryable or finds
  no retry left, the loop returns at that result, after \<open>k + 1\<close> calls and \<open>k\<close> sleeps.
\<close>

lemma search_loop_stops:
  assumes "http_NewRequest P ''POST'' url (Some body) = None"
    and "\<forall>i<k. classify (http c (calls w + i)) = RetryableFailure"
    and "classify (http c (calls w + k)) \<noteq> RetryableFailure \<or> maxRetries c \<le> int (a + k)"
    and "k = 0 \<or> int (a + k) \<le> maxRetries c"
  shows "fst (search_loop P c url body a w) = final_result P (http c (calls w + k))
       \<and> calls (snd (search_loop P c url body a w)) = calls w + k + 1
       \<and> (\<exists>ds. length ds = k \<and> sleeps (snd (search_loop P c url body a w)) = sleeps w @ ds)
       \<and> reads (snd (search_loop P c url body a w))
           = reads w @ concat (map (\<lambda>i. attempt_reads (http c (calls w + i))) [0..<Suc k])"
  using assms
proof (induction k arbitrary: a w)
  case 0
  then obtain w' where "search_attempt P c url body a w = (Return (final_result P (http c (calls w))), w')"
    "calls w' = Suc (calls w)" "sleeps w' = sleeps w"
    "reads w' = reads w @ attempt_reads (http c (calls w))"
    using search_attempt_stop [of P url body c w a] by auto
  then show ?case by (simp add: search_loop.simps)
next
  case (Suc k)
  have r: "classify (http c (calls w)) = RetryableFailure"
    using Suc.prems(2) by (metis add.right_neutral zero_less_Suc)
  have lt: "int a < maxRetries c" using Suc.prems(4) by simp
  obtain w' d where w': "search_attempt P c url body a w = (Continue, w')"
    "calls w' = Suc (calls w)" "sleeps w' = sleeps w @ [d]"
    "reads w' = reads w @ attempt_reads (http c (calls w))"
    using search_attempt_retry [OF Suc.prems(1) r lt] by auto
  have "\<forall>i<k. classify (http c (calls w' + i)) = RetryableFailure"
    using Suc.prems(2) w'(2) by (metis Suc_less_eq add_Suc_shift)
  moreover have "classify (http c (calls w' + k)) \<noteq> RetryableFailure \<or> maxRetries c \<le> int (Suc a + k)"
    using Suc.prems(3) w'(2) by simp
  moreover have "k = 0 \<or> int (Suc a + k) \<le> maxRetries c" using Suc.prems(4) by simp
  ultimately have ih: "fst (search_loop P c url body (Suc a) w') = final_result P (http c (calls w' + k))
       \<and> calls (snd (search_loop P c url body (Suc a) w')) = calls w' + k + 1
       \<and> (\<exists>ds. length ds = k \<and> sleeps (snd (search_loop P c url body (Suc a) w')) = sleeps w' @ ds)
       \<and> reads (snd (search_loop P c url body (Suc a) w'))
           = reads w' @ concat (map (\<lambda>i. attempt_reads (http c (calls w' + i))) [0..<Suc k])"
    using Suc.IH [OF Suc.prems(1)] by blast
  have shift: "map (\<lambda>i. attempt_reads (http c (calls w + i))) [0..<Suc (Suc k)]
      = attempt_reads (http c (calls w)) # map (\<lambda>i. attempt_reads (http c (calls w' + i))) [0..<Suc k]"
    unfolding w'(2) upt_conv_Cons [OF zero_less_Suc] map_Suc_upt [symmetric]
    by (simp del: upt_Suc)
  have step: "search_loop P c url body a w = search_loop P c url body (Suc a) w'"
    using w'(1) by (simp add: search_loop.simps [of P c url body a w])
  from ih obtain ds where ds: "length ds = k"
    "sleeps (snd (search_loop P c url body (Suc a) w')) = sleeps w' @ ds"
    by blast
  have sl: "length (d # ds) = Suc k
      \<and> sleeps (snd (search_loop P c url body (Suc a) w')) = sleeps w @ (d # ds)"
    using ds w'(3) by simp
  show ?case
    unfolding step shift using ih w'(2,4) sl by (auto simp del: length_Cons)
qed

lemma search_loop_calls_le:
  "calls (snd (search_loop P c url body a w)) \<le> calls w + nat (maxRetries c - int a) + 1"
proof (induction P c url body a w rule: search_loop.induct)
  case (1 P c url body attempt w)
  show ?case
  proof (cases "search_attempt P c url body attempt w")
    case (Pair s w')
    have c: "calls w' \<le> Suc (calls w)"
      using Pair
      by (auto simp: search_attempt_def http_Do_def io_ReadAll_LimitReader_def io_ReadAll_def
            sleep_backoff_frame time_Sleep_def Let_def
          split: transport_result.splits option.splits if_splits prod.splits)
    show ?thesis
    proof (cases s)
      case (Return r)
      then show ?thesis using Pair c by (simp add: search_loop.simps [of P c url body attempt w])
    next
      case Continue
      have lt: "int attempt < maxRetries c"
        using Pair Continue
        by (auto simp: search_attempt_def Let_def split: option.splits prod.splits
              transport_result.splits if_splits)
      have "calls (snd (search_loop P c url body (Suc attempt) w'))
          \<le> calls w' + nat (maxRetries c - int (Suc attempt)) + 1"
        using 1 Pair Continue by simp
      then show ?thesis using Pair Continue c lt
        by (simp add: search_loop.simps [of P c url body attempt w])
    qed
  qed
qed

text \<open>The same for \<^verbatim>\<open>Search\<close>, once its request is built.\<close>

lemma Search_stops:
  assumes "search_request_built P c req"
    and "\<forall>i<k. classify (http c (calls w + i)) = RetryableFailure"
    and "classify (http c (calls w + k)) \<noteq> RetryableFailure \<or> maxRetries c \<le> int k"
    and "k = 0 \<or> int k \<le> maxRetries c"
  shows "fst (Search P c req w) = final_result P (http c (calls w + k))
       \<and> calls (snd (Search P c req w)) = calls w + k + 1
       \<and> (\<exists>ds. length ds = k \<and> sleeps (snd (Search P c req w)) = sleeps w @ ds)
       \<and> reads (snd (Search P c req w))
           = reads w @ concat (map (\<lambda>i. attempt_reads (http c (calls w + i))) [0..<Suc k])"
proof -
  obtain body where b: "json_Marshal_search P req = Inr body"
    "http_NewRequest P ''POST'' (baseURL c @ ''/search'') (Some body) = None" "apiKey c \<noteq> []"
    using assms(1) by (auto simp: search_request_built_def split: sum.splits)
  have "Search P c req w = search_loop P c (baseURL c @ ''/search'') body 0 w"
    using b by (simp add: Search_def)
  then show ?thesis
    using search_loop_stops [OF b(2) assms(2), of 0] assms(3,4) by simp
qed

lemma Search_calls_le:
  "calls (snd (Search P c req w)) \<le> calls w + nat (maxRetries c) + 1"
  using search_loop_calls_le [of P c _ _ 0 w]
  by (auto simp: Search_def split: sum.splits)

lemma isl_final_result_retryable:
  "classify t = RetryableFailure \<Longrightarrow> isl (final_result P t)"
  by (auto simp: classify_def final_result_def Let_def split: transport_result.splits if_splits)

lemma test_client_simps:
  "maxRetries (test_client h) = 2" "http (test_client h) = h" "apiKey (test_client h) = ''test-key''"
  "minBackoff (test_client h) = 1000000" "maxBackoff (test_client h) = 5000000"
  "baseURL (test_client h) = defaultBaseURL"
  by (simp_all add: test_client_def NewClient_def Millisecond_def Second_def Let_def)

lemma built_test: "search_request_built test_platform (test_client h) test_request"
  by (simp add: search_request_built_def test_platform_def test_client_simps)


lemmas run_defs = Search_def Fetch_def GetBalance_def search_attempt_def http_Do_def
  io_ReadAll_LimitReader_def io_ReadAll_def time_Sleep_def test_platform_def script_def
  reply_def world0_def test_request_def test_fetch_def test_client_def NewClient_def
  Millisecond_def Second_def Let_def

section \<open>Configuration errors\<close>

text \<open>
  Claim C5. A call of \<^verbatim>\<open>Search\<close>, \<^verbatim>\<open>Fetch\<close> or \<^verbatim>\<open>GetBalance\<close> on a client whose
  credential is the empty string returns a configuration error at once and leaves the
  world as it was: the transport is not invoked, nothing sleeps, no body is read.
  \<^verbatim>\<open>Fetch\<close> does the same when the URL of the request is empty.
\<close>

theorem empty_credential_no_transport:
  "(apiKey c = [] \<longrightarrow>
      Search P c sreq w = (Inl (ErrorsNew ''linkup: API key is empty''), w)
    \<and> Fetch P c freq w = (Inl (ErrorsNew ''linkup: API key is empty''), w)
    \<and> GetBalance P c w = (Inl (ErrorsNew ''linkup: API key is empty''), w)
    \<and> ConfigurationError (ErrorsNew ''linkup: API key is empty''))
   \<and> (URL freq = [] \<longrightarrow>
        (\<exists>e. ConfigurationError e \<and> Fetch P c freq w = (Inl e, w)))"
  by (simp add: Search_def Fetch_def GetBalance_def ConfigurationError_def)

theorem empty_credential_no_transport_witness:
  "apiKey (NewClient (script [] (reply 200 [] [])) [] []) = []
   \<and> URL (test_fetch\<lparr>URL := []\<rparr>) = []
   \<and> Search test_platform (NewClient (script [] (reply 200 [] [])) [] []) test_request world0
       = (Inl (ErrorsNew ''linkup: API key is empty''), world0)
   \<and> GetBalance test_platform (NewClient (script [] (reply 200 [] [])) [] []) world0
       = (Inl (ErrorsNew ''linkup: API key is empty''), world0)
   \<and> Fetch test_platform (test_client (script [] (reply 200 [] []))) (test_fetch\<lparr>URL := []\<rparr>) world0
       = (Inl (ErrorsNew ''linkup: fetch url is empty''), world0)"
  using empty_credential_no_transport [of "NewClient (script [] (reply 200 [] [])) [] []"
      test_platform test_request world0 "test_fetch\<lparr>URL := []\<rparr>"]
    empty_credential_no_transport [of "test_client (script [] (reply 200 [] []))"
      test_platform test_request world0 "test_fetch\<lparr>URL := []\<rparr>"]
  by (simp add: run_defs)

section \<open>The number of attempts\<close>

text \<open>
  Claim C1. With \<open>maxRetries \<ge> 0\<close>, a call of \<^verbatim>\<open>Search\<close> invokes the transport at most
  \<open>maxRetries + 1\<close> times. Once its request is built, it stops at the first attempt
  whose outcome is not a retryable failure (a success or a terminal failure), after
  exactly that many attempts and with the result of that attempt; and when the first
  \<open>maxRetries + 1\<close> outcomes are all retryable failures it stops after
  \<open>maxRetries + 1\<close> attempts with an error.
\<close>

theorem search_attempts_bounded:
  assumes "0 \<le> maxRetries c"
  shows "calls (snd (Search P c req w)) \<le> calls w + nat (maxRetries c) + 1
    \<and> (search_request_built P c req \<longrightarrow>
         (\<forall>k. (\<forall>i<k. classify (http c (calls w + i)) = RetryableFailure)
               \<and> classify (http c (calls w + k)) \<noteq> RetryableFailure
               \<and> int k \<le> maxRetries c
             \<longrightarrow> calls (snd (Search P c req w)) = calls w + k + 1
               \<and> fst (Search P c req w) = final_result P (http c (calls w + k))))
    \<and> (search_request_built P c req
         \<and> (\<forall>i \<le> nat (maxRetries c). classify (http c (calls w + i)) = RetryableFailure)
        \<longrightarrow> calls (snd (Search P c req w)) = calls w + nat (maxRetries c) + 1
          \<and> isl (fst (Search P c req w)))"
proof (intro conjI impI allI)
  show "calls (snd (Search P c req w)) \<le> calls w + nat (maxRetries c) + 1"
    by (rule Search_calls_le)
next
  fix k
  assume b: "search_request_built P c req"
    and h: "(\<forall>i<k. classify (http c (calls w + i)) = RetryableFailure)
               \<and> classify (http c (calls w + k)) \<noteq> RetryableFailure
               \<and> int k \<le> maxRetries c"
  from Search_stops [OF b, of k w] h
  show "calls (snd (Search P c req w)) = calls w + k + 1" by simp
  from Search_stops [OF b, of k w] h
  show "fst (Search P c req w) = final_result P (http c (calls w + k))" by simp
next
  assume h: "search_request_built P c req
         \<and> (\<forall>i \<le> nat (maxRetries c). classify (http c (calls w + i)) = RetryableFailure)"
  let ?k = "nat (maxRetries c)"
  have s: "fst (Search P c req w) = final_result P (http c (calls w + ?k))
       \<and> calls (snd (Search P c req w)) = calls w + ?k + 1"
    using Search_stops [of P c req ?k w] h assms by simp
  then show "calls (snd (Search P c req w)) = calls w + nat (maxRetries c) + 1" by simp
  show "isl (fst (Search P c req w))"
    using s h isl_final_result_retryable [of "http c (calls w + ?k)" P] by simp
qed

theorem search_attempts_bounded_witness:
  "0 \<le> maxRetries (test_client net_502_502_200)
   \<and> search_request_built test_platform (test_client net_502_502_200) test_request
   \<and> calls (snd (Search test_platform (test_client net_502_502_200) test_request world0)) = 3
   \<and> fst (Search test_platform (test_client net_502_502_200) test_request world0) = Inr ''ok''
   \<and> calls (snd (Search test_platform (test_client net_503) test_request world0)) = 3
   \<and> isl (fst (Search test_platform (test_client net_503) test_request world0))"
proof -
  have a: "(\<forall>i<2. classify (http (test_client net_502_502_200) (calls world0 + i)) = RetryableFailure)
      \<and> classify (http (test_client net_502_502_200) (calls world0 + 2)) \<noteq> RetryableFailure
      \<and> int 2 \<le> maxRetries (test_client net_502_502_200)"
    by (auto simp: test_client_simps net_502_502_200_def script_def reply_def classify_def world0_def
          less_Suc_eq numeral_2_eq_2)
  have c: "\<forall>i \<le> nat (maxRetries (test_client net_503)).
      classify (http (test_client net_503) (calls world0 + i)) = RetryableFailure"
    by (simp add: test_client_simps net_503_def script_def reply_def classify_def)
  have f: "final_result test_platform (http (test_client net_502_502_200) (calls world0 + 2)) = Inr ''ok''"
    by (simp add: test_client_simps net_502_502_200_def script_def reply_def final_result_def world0_def)
  have n: "0 \<le> maxRetries (test_client h)" for h
    by (simp add: test_client_simps)
  note t1 = search_attempts_bounded [of "test_client net_502_502_200" test_platform test_request world0, OF n]
  note t2 = search_attempts_bounded [of "test_client net_503" test_platform test_request world0, OF n]
  from t1 built_test a have "calls (snd (Search test_platform (test_client net_502_502_200) test_request world0)) = calls world0 + 2 + 1
      \<and> fst (Search test_platform (test_client net_502_502_200) test_request world0)
          = final_result test_platform (http (test_client net_502_502_200) (calls world0 + 2))"
    by blast
  moreover from t2 built_test c have "calls (snd (Search test_platform (test_client net_503) test_request world0))
        = calls world0 + nat (maxRetries (test_client net_503)) + 1
      \<and> isl (fst (Search test_platform (test_client net_503) test_request world0))"
    by blast
  ultimately show ?thesis
    using f n built_test by (simp add: test_client_simps world0_def)
qed


section \<open>Unauthorized and forbidden\<close>

text \<open>
  Claim C2. When the transport answers the first attempt of a \<^verbatim>\<open>Search\<close> with status
  401, the call returns \<^verbatim>\<open>ErrUnauthorized\<close> after exactly one transport attempt and
  without sleeping, whatever \<open>maxRetries\<close> is; with status 403 it returns
  \<^verbatim>\<open>ErrForbidden\<close> in the same way.
\<close>

theorem unauthorized_forbidden_one_attempt:
  assumes "search_request_built P c req"
    and "http c (calls w) = DoResponse res"
    and "StatusCode res = 401 \<or> StatusCode res = 403"
  shows "fst (Search P c req w) = Inl (if StatusCode res = 401 then ErrUnauthorized else ErrForbidden)
       \<and> calls (snd (Search P c req w)) = calls w + 1
       \<and> sleeps (snd (Search P c req w)) = sleeps w"
proof -
  have t: "classify (http c (calls w + 0)) \<noteq> RetryableFailure \<or> maxRetries c \<le> int 0"
    using assms(2,3) by (auto simp: classify_def)
  have f: "final_result P (http c (calls w)) = Inl (if StatusCode res = 401 then ErrUnauthorized else ErrForbidden)"
    using assms(2,3) by (auto simp: final_result_def Let_def)
  from Search_stops [OF assms(1) _ t] f show ?thesis by auto
qed

theorem unauthorized_forbidden_one_attempt_witness:
  "search_request_built test_platform (test_client net_401) test_request
   \<and> http (test_client net_401) (calls world0) = reply 401 [] ''nope''
   \<and> Search test_platform (test_client net_401) test_request world0
        = (Inl ErrUnauthorized, world0\<lparr>calls := 1, reads := [4]\<rparr>)
   \<and> fst (Search test_platform (test_client net_403) test_request world0) = Inl ErrForbidden
   \<and> calls (snd (Search test_platform (test_client net_403) test_request world0)) = 1
   \<and> sleeps (snd (Search test_platform (test_client net_403) test_request world0)) = []"
proof -
  have r: "http (test_client net_403) (calls world0)
      = DoResponse \<lparr>StatusCode = 403, RetryAfter = [], Body = ''nope'', BodyErr = None\<rparr>"
    by (simp add: test_client_simps net_403_def script_def reply_def)
  have "Search test_platform (test_client net_401) test_request world0
        = (Inl ErrUnauthorized, world0\<lparr>calls := 1, reads := [4]\<rparr>)"
    by (simp add: run_defs net_401_def search_loop.simps)
  then show ?thesis
    using unauthorized_forbidden_one_attempt [OF built_test r] built_test
    by (simp add: test_client_simps net_401_def script_def world0_def)
qed


section \<open>The success path\<close>

text \<open>
  Claim C6. When the loop of \<^verbatim>\<open>Search\<close> reaches a response with a status in
  [200,300), the payload it returns is the body of that response, byte for byte; when
  reading the body fails it returns the reader's error and no payload.
\<close>

theorem success_payload_verbatim:
  assumes "search_request_built P c req"
    and "\<forall>i<k. classify (http c (calls w + i)) = RetryableFailure"
    and "k = 0 \<or> int k \<le> maxRetries c"
    and "http c (calls w + k) = DoResponse res"
    and "200 \<le> StatusCode res \<and> StatusCode res < 300"
  shows "fst (Search P c req w) = (case BodyErr res of None \<Rightarrow> Inr (Body res) | Some err \<Rightarrow> Inl err)"
proof -
  have t: "classify (http c (calls w + k)) \<noteq> RetryableFailure \<or> maxRetries c \<le> int k"
    using assms(4,5) by (auto simp: classify_def)
  have "final_result P (http c (calls w + k))
      = (case BodyErr res of None \<Rightarrow> Inr (Body res) | Some err \<Rightarrow> Inl err)"
    using assms(4,5) by (auto simp: final_result_def)
  with Search_stops [OF assms(1,2) t assms(3)] show ?thesis by simp
qed

theorem success_payload_verbatim_witness:
  "search_request_built test_platform (test_client net_502_502_200) test_request
   \<and> classify (http (test_client net_502_502_200) (calls world0 + 0)) = RetryableFailure
   \<and> classify (http (test_client net_502_502_200) (calls world0 + 1)) = RetryableFailure
   \<and> int 2 \<le> maxRetries (test_client net_502_502_200)
   \<and> http (test_client net_502_502_200) (calls world0 + 2) = reply 200 [] ''ok''
   \<and> fst (Search test_platform (test_client net_502_502_200) test_request world0) = Inr ''ok''"
proof -
  have a: "\<forall>i<2. classify (http (test_client net_502_502_200) (calls world0 + i)) = RetryableFailure"
    by (auto simp: test_client_simps net_502_502_200_def script_def reply_def classify_def world0_def
          less_Suc_eq numeral_2_eq_2)
  have k: "(2::nat) = 0 \<or> int 2 \<le> maxRetries (test_client net_502_502_200)"
    by (simp add: test_client_simps)
  have r: "http (test_client net_502_502_200) (calls world0 + 2)
      = DoResponse \<lparr>StatusCode = 200, RetryAfter = [], Body = ''ok'', BodyErr = None\<rparr>"
    by (simp add: test_client_simps net_502_502_200_def script_def reply_def world0_def)
  have a01: "classify (http (test_client net_502_502_200) (calls world0 + 0)) = RetryableFailure"
    "classify (http (test_client net_502_502_200) (calls world0 + 1)) = RetryableFailure"
    by (simp_all add: test_client_simps net_502_502_200_def script_def reply_def classify_def
          world0_def)
  show ?thesis
    using success_payload_verbatim [OF built_test a k r] a01 built_test r
    by (simp add: test_client_simps reply_def)
qed

section \<open>Error bodies\<close>










section \<open>The body of a 401 or 403 response\<close>

text \<open>
  Claim C9 says that \<^verbatim>\<open>Search\<close> returns the sentinel for 401 and 403 without reading
  the body. The code reads up to 1 MiB of the body of every response outside
  [200,300) before it looks at the status: on 401 and 403 \<^verbatim>\<open>Search\<close> has read the body
  when it returns, where \<^verbatim>\<open>Fetch\<close> and \<^verbatim>\<open>GetBalance\<close> return before any read.
\<close>

theorem search_reads_body_before_sentinel:
  assumes "search_request_built P c req"
    and "http c (calls w) = DoResponse res"
    and "StatusCode res = 401 \<or> StatusCode res = 403"
  shows "reads (snd (Search P c req w)) = reads w @ [length (take 1048576 (Body res))]"
proof -
  have t: "classify (http c (calls w + 0)) \<noteq> RetryableFailure \<or> maxRetries c \<le> int 0"
    using assms(2,3) by (auto simp: classify_def)
  have a: "attempt_reads (http c (calls w)) = [length (take 1048576 (Body res))]"
    using assms(2,3) by (auto simp: attempt_reads_def)
  from Search_stops [OF assms(1) _ t] a show ?thesis by (simp del: length_take)
qed

theorem search_reads_body_before_sentinel_witness:
  "search_request_built test_platform (test_client net_403) test_request
   \<and> http (test_client net_403) (calls world0) = reply 403 [] ''nope''
   \<and> reads (snd (Search test_platform (test_client net_403) test_request world0)) = [4]
   \<and> reads (snd (Fetch test_platform (test_client net_403) test_fetch world0)) = []
   \<and> reads (snd (GetBalance test_platform (test_client net_403) world0)) = []"
proof -
  have r: "http (test_client net_403) (calls world0)
      = DoResponse \<lparr>StatusCode = 403, RetryAfter = [], Body = ''nope'', BodyErr = None\<rparr>"
    by (simp add: test_client_simps net_403_def script_def reply_def)
  have "reads (snd (Fetch test_platform (test_client net_403) test_fetch world0)) = []"
    "reads (snd (GetBalance test_platform (test_client net_403) world0)) = []"
    by (simp_all add: run_defs net_403_def)
  then show ?thesis
    using search_reads_body_before_sentinel [OF built_test r] built_test r
    by (simp add: world0_def reply_def)
qed

section \<open>Fetch and GetBalance do not retry\<close>

text \<open>
  Claim C10. \<^verbatim>\<open>Fetch\<close> and \<^verbatim>\<open>GetBalance\<close> never sleep and invoke the transport exactly
  once when their request is built (not at all otherwise), whatever the status of the
  response and whatever \<open>maxRetries\<close> is; on a retryable outcome (a transport error,
  429, 5xx) they return an error.
\<close>

theorem fetch_balance_single_attempt:
  "sleeps (snd (Fetch P c freq w)) = sleeps w
   \<and> calls (snd (Fetch P c freq w)) = (if fetch_request_built P c freq then calls w + 1 else calls w)
   \<and> sleeps (snd (GetBalance P c w)) = sleeps w
   \<and> calls (snd (GetBalance P c w)) = (if balance_request_built P c then calls w + 1 else calls w)
   \<and> (fetch_request_built P c freq \<and> classify (http c (calls w)) = RetryableFailure
        \<longrightarrow> isl (fst (Fetch P c freq w)))
   \<and> (balance_request_built P c \<and> classify (http c (calls w)) = RetryableFailure
        \<longrightarrow> isl (fst (GetBalance P c w)))"
  by (auto simp: Fetch_def GetBalance_def fetch_request_built_def balance_request_built_def
        http_Do_def io_ReadAll_LimitReader_def io_ReadAll_def classify_def Let_def
      split: sum.splits option.splits transport_result.splits prod.splits if_splits)

theorem fetch_balance_single_attempt_witness:
  "fetch_request_built test_platform (test_client net_503) test_fetch
   \<and> balance_request_built test_platform (test_client net_503)
   \<and> classify (http (test_client net_503) (calls world0)) = RetryableFailure
   \<and> maxRetries (test_client net_503) = 2
   \<and> calls (snd (Fetch test_platform (test_client net_503) test_fetch world0)) = 1
   \<and> sleeps (snd (Fetch test_platform (test_client net_503) test_fetch world0)) = []
   \<and> isl (fst (Fetch test_platform (test_client net_503) test_fetch world0))
   \<and> calls (snd (GetBalance test_platform (test_client net_503) world0)) = 1
   \<and> sleeps (snd (GetBalance test_platform (test_client net_503) world0)) = []
   \<and> isl (fst (GetBalance test_platform (test_client net_503) world0))"
proof -
  have b: "fetch_request_built test_platform (test_client net_503) test_fetch"
    "balance_request_built test_platform (test_client net_503)"
    by (simp_all add: fetch_request_built_def balance_request_built_def test_platform_def
          test_client_simps test_fetch_def)
  have r: "classify (http (test_client net_503) (calls world0)) = RetryableFailure"
    by (simp add: test_client_simps net_503_def script_def reply_def classify_def)
  show ?thesis
    using fetch_balance_single_attempt [of test_platform "test_client net_503" test_fetch world0] b r
    by (simp add: test_client_simps world0_def)
qed

section \<open>The retry policy of a new client\<close>

text \<open>
  Claim C8 says that every client made by \<^verbatim>\<open>NewClient\<close> has
  \<open>maxBackoff \<ge> minBackoff\<close>. \<^verbatim>\<open>WithRetry\<close> sets the minimum before it compares the
  new maximum with it, and keeps the old maximum when the comparison fails:
  \<^verbatim>\<open>WithRetry(0, 10*time.Second, 1*time.Second)\<close> on the defaults leaves a minimum of
  10 s above a maximum of 4 s.
\<close>

theorem NewClient_min_above_max:
  "minBackoff (NewClient net key [WithRetry 0 (10 * Second) (1 * Second)]) = 10 * Second
   \<and> maxBackoff (NewClient net key [WithRetry 0 (10 * Second) (1 * Second)]) = 4 * Second
   \<and> \<not> minBackoff (NewClient net key [WithRetry 0 (10 * Second) (1 * Second)])
        \<le> maxBackoff (NewClient net key [WithRetry 0 (10 * Second) (1 * Second)])"
  by (simp add: NewClient_def Second_def Millisecond_def Let_def)

text \<open>The rest of the invariant holds: the retry count is never negative, the minimum is positive.\<close>

lemma apply_option_invariant:
  "0 \<le> maxRetries c \<and> 0 < minBackoff c
   \<Longrightarrow> 0 \<le> maxRetries (apply_option opt c) \<and> 0 < minBackoff (apply_option opt c)"
  by (cases opt) (auto simp: Let_def)

lemma fold_apply_option_invariant:
  "0 \<le> maxRetries c \<and> 0 < minBackoff c
   \<Longrightarrow> 0 \<le> maxRetries (fold apply_option opts c) \<and> 0 < minBackoff (fold apply_option opts c)"
proof (induction opts arbitrary: c)
  case Nil
  then show ?case by simp
next
  case (Cons opt opts)
  show ?case
    using Cons.IH [OF apply_option_invariant [OF Cons.prems]] by simp
qed

lemma NewClient_invariant:
  "0 \<le> maxRetries (NewClient net key opts) \<and> 0 < minBackoff (NewClient net key opts)"
  unfolding NewClient_def
  by (rule fold_apply_option_invariant) (simp add: Millisecond_def)


section \<open>Backoff within its bounds\<close>

subsection \<open>Rounding to binary64\<close>

lemma round_half_even_of_int [simp]: "round_half_even (of_int n) = n"
  by (simp add: round_half_even_def)

lemma round_half_even_numeral [simp]: "round_half_even (numeral k) = numeral k"
  using round_half_even_of_int [of "numeral k"] by simp

lemma round_half_even_cases:
  "round_half_even x = \<lfloor>x\<rfloor> \<or> round_half_even x = \<lfloor>x\<rfloor> + 1"
  by (simp add: round_half_even_def Let_def)

lemma round_half_even_mono:
  assumes "x \<le> y"
  shows "round_half_even x \<le> round_half_even y"
proof (cases "\<lfloor>x\<rfloor> = \<lfloor>y\<rfloor>")
  case True
  then show ?thesis using assms by (simp add: round_half_even_def Let_def)
next
  case False
  then have "\<lfloor>x\<rfloor> < \<lfloor>y\<rfloor>" using floor_mono [OF assms] by simp
  then show ?thesis
    using round_half_even_cases [of x] round_half_even_cases [of y] by linarith
qed

lemma binade_bounds:
  assumes "0 < x"
  shows "2 powi binade x \<le> x \<and> x < 2 powi (binade x + 1)"
proof -
  obtain p q where pq: "quotient_of x = (p, q)" by (cases "quotient_of x")
  have q: "0 < q" using quotient_of_denom_pos [OF pq] .
  have x: "x = of_int p / of_int q" using quotient_of_div [OF pq] .
  have p: "0 < p" using assms q unfolding x by (simp add: zero_less_divide_iff)
  define a where "a = bitlen p"
  define b where "b = bitlen q"
  have a: "2 ^ nat (a - 1) \<le> p" "p < 2 ^ nat a" using bitlen_bounds [OF p] unfolding a_def by simp_all
  have b: "2 ^ nat (b - 1) \<le> q" "q < 2 ^ nat b" using bitlen_bounds [OF q] unfolding b_def by simp_all
  have a1: "1 \<le> a" using p unfolding a_def by (simp add: bitlen_def floorlog_def)
  have b1: "1 \<le> b" using q unfolding b_def by (simp add: bitlen_def floorlog_def)
  have pa: "(2::rat) powi (a - 1) \<le> of_int p" "(of_int p :: rat) < 2 powi a"
  proof -
    have "(of_int (2 ^ nat (a - 1)) :: rat) \<le> of_int p" using a(1) unfolding of_int_le_iff .
    then show "(2::rat) powi (a - 1) \<le> of_int p" using a1 by (simp add: power_int_nonneg_exp)
    have "(of_int p :: rat) < of_int (2 ^ nat a)" using a(2) unfolding of_int_less_iff .
    then show "(of_int p :: rat) < 2 powi a" using a1 by (simp add: power_int_nonneg_exp)
  qed
  have qb: "(2::rat) powi (b - 1) \<le> of_int q" "(of_int q :: rat) < 2 powi b"
  proof -
    have "(of_int (2 ^ nat (b - 1)) :: rat) \<le> of_int q" using b(1) unfolding of_int_le_iff .
    then show "(2::rat) powi (b - 1) \<le> of_int q" using b1 by (simp add: power_int_nonneg_exp)
    have "(of_int q :: rat) < of_int (2 ^ nat b)" using b(2) unfolding of_int_less_iff .
    then show "(of_int q :: rat) < 2 powi b" using b1 by (simp add: power_int_nonneg_exp)
  qed
  have q': "(0::rat) < of_int q" using q by simp
  have up: "x < 2 powi (a - b + 1)"
  proof -
    have "of_int p < (2::rat) powi (a - b + 1) * 2 powi (b - 1)"
      using pa(2) by (simp add: power_int_add [symmetric])
    also have "\<dots> \<le> 2 powi (a - b + 1) * of_int q"
      by (rule mult_left_mono [OF qb(1)]) simp
    finally show ?thesis unfolding x using q' by (simp add: pos_divide_less_eq)
  qed
  have lo: "2 powi (a - b - 1) < x"
  proof -
    have "(2::rat) powi (a - b - 1) * of_int q < 2 powi (a - b - 1) * 2 powi b"
      by (rule mult_strict_left_mono [OF qb(2)]) simp
    also have "\<dots> = 2 powi (a - 1)" by (simp add: power_int_add [symmetric])
    also have "\<dots> \<le> of_int p" by (rule pa(1))
    finally show ?thesis unfolding x using q' by (simp add: pos_less_divide_eq)
  qed
  have d: "binade x = (if 2 powi (a - b) \<le> x then a - b else a - b - 1)"
    by (simp add: binade_def pq a_def b_def Let_def)
  show ?thesis
  proof (cases "2 powi (a - b) \<le> x")
    case True
    then show ?thesis using up d by simp
  next
    case False
    then show ?thesis using lo d by simp
  qed
qed

lemma binade_unique:
  assumes "0 < x" "2 powi e \<le> x" "x < 2 powi (e + 1)"
  shows "binade x = e"
proof -
  note b = binade_bounds [OF assms(1)]
  have 1: "e < binade x + 1"
  proof (rule ccontr)
    assume "\<not> e < binade x + 1"
    then have "(2::rat) powi (binade x + 1) \<le> 2 powi e"
      by (intro power_int_increasing) simp_all
    then show False using assms(2) b by simp
  qed
  have 2: "binade x < e + 1"
  proof (rule ccontr)
    assume "\<not> binade x < e + 1"
    then have "(2::rat) powi (e + 1) \<le> 2 powi binade x"
      by (intro power_int_increasing) simp_all
    then show False using assms(3) b by simp
  qed
  show ?thesis using 1 2 by simp
qed


lemma binary64_zero: "binary64 0 = 0"
  by (simp add: binary64_def)

lemma binary64_pos:
  assumes "0 < x"
  shows "binary64 x = of_int (round_half_even (x / 2 powi (binade x - 52))) * 2 powi (binade x - 52)"
  using assms by (simp add: binary64_def Let_def)

lemma mantissa_range:
  assumes "0 < x"
  shows "2 ^ 52 \<le> round_half_even (x / 2 powi (binade x - 52))
       \<and> round_half_even (x / 2 powi (binade x - 52)) \<le> 2 ^ 53"
proof -
  let ?e = "binade x"
  let ?u = "(2::rat) powi (?e - 52)"
  have u: "0 < ?u" by simp
  note b = binade_bounds [OF assms]
  have e1: "(2::rat) powi ?e = 2 ^ 52 * ?u"
    using power_int_add [of "2::rat" 52 "?e - 52"] by simp
  have e2: "(2::rat) powi (?e + 1) = 2 ^ 53 * ?u"
    using power_int_add [of "2::rat" 53 "?e - 52"] by (simp add: add.commute)
  have lo: "of_int (2 ^ 52) \<le> x / ?u" using b u unfolding e1 by (simp add: pos_le_divide_eq)
  have hi: "x / ?u \<le> of_int (2 ^ 53)" using b u unfolding e2 by (simp add: pos_divide_le_eq)
  show ?thesis
    using round_half_even_mono [OF lo] round_half_even_mono [OF hi]
    unfolding round_half_even_of_int by simp
qed

lemma binary64_pos_range:
  assumes "0 < x"
  shows "2 powi binade x \<le> binary64 x \<and> binary64 x \<le> 2 powi (binade x + 1)"
proof -
  let ?e = "binade x"
  let ?u = "(2::rat) powi (?e - 52)"
  let ?n = "round_half_even (x / ?u)"
  have u: "0 < ?u" by simp
  have e1: "(2::rat) powi ?e = 2 ^ 52 * ?u"
    using power_int_add [of "2::rat" 52 "?e - 52"] by simp
  have e2: "(2::rat) powi (?e + 1) = 2 ^ 53 * ?u"
    using power_int_add [of "2::rat" 53 "?e - 52"] by (simp add: add.commute)
  note m = mantissa_range [OF assms]
  have "(of_int (2 ^ 52) :: rat) \<le> of_int ?n" using m unfolding of_int_le_iff by simp
  then have lo: "2 ^ 52 * ?u \<le> of_int ?n * ?u" using u by simp
  have "(of_int ?n :: rat) \<le> of_int (2 ^ 53)" using m unfolding of_int_le_iff by simp
  then have hi: "of_int ?n * ?u \<le> 2 ^ 53 * ?u" using u by simp
  show ?thesis unfolding binary64_pos [OF assms] e1 e2 using lo hi by simp
qed

lemma binade_mono:
  assumes "0 < x" "x \<le> y"
  shows "binade x \<le> binade y"
proof (rule ccontr)
  assume "\<not> binade x \<le> binade y"
  then have "(2::rat) powi (binade y + 1) \<le> 2 powi binade x"
    by (intro power_int_increasing) simp_all
  moreover have "0 < y" using assms by simp
  ultimately show False
    using binade_bounds [OF assms(1)] binade_bounds [OF \<open>0 < y\<close>] assms(2) by simp
qed

lemma binary64_mono:
  assumes "0 \<le> x" "x \<le> y"
  shows "binary64 x \<le> binary64 y"
proof (cases "x = 0")
  case True
  show ?thesis
  proof (cases "y = 0")
    case True
    then show ?thesis using \<open>x = 0\<close> by simp
  next
    case False
    then have "0 < y" using assms True by simp
    have "(0::rat) \<le> 2 powi binade y" by simp
    then have "0 \<le> binary64 y"
      using binary64_pos_range [OF \<open>0 < y\<close>] by linarith
    then show ?thesis unfolding True binary64_zero .
  qed
next
  case False
  then have x: "0 < x" using assms by simp
  then have y: "0 < y" using assms by simp
  show ?thesis
  proof (cases "binade x = binade y")
    case True
    let ?u = "(2::rat) powi (binade y - 52)"
    have u: "0 < ?u" by simp
    have "x / ?u \<le> y / ?u" using assms(2) u by (simp add: divide_right_mono)
    then have "round_half_even (x / ?u) \<le> round_half_even (y / ?u)"
      by (rule round_half_even_mono)
    then have "(of_int (round_half_even (x / ?u)) :: rat) \<le> of_int (round_half_even (y / ?u))"
      unfolding of_int_le_iff .
    then show ?thesis
      unfolding binary64_pos [OF x] binary64_pos [OF y] True using u by simp
  next
    case False
    then have "binade x + 1 \<le> binade y" using binade_mono [OF x assms(2)] by simp
    then have "(2::rat) powi (binade x + 1) \<le> 2 powi binade y"
      by (intro power_int_increasing) simp_all
    then show ?thesis
      using binary64_pos_range [OF x] binary64_pos_range [OF y] by simp
  qed
qed


lemma powi_52: "(2::rat) powi (k + 52) = 2 ^ 52 * 2 powi k" "(2::rat) powi (k + 53) = 2 ^ 53 * 2 powi k"
  "(2::rat) powi (k + 1) = 2 * 2 powi k" "(2::rat) powi (k + 54) = 2 ^ 54 * 2 powi k"
  using power_int_add [of "2::rat" 52 k] power_int_add [of "2::rat" 53 k]
    power_int_add [of "2::rat" 1 k] power_int_add [of "2::rat" 54 k]
  by (simp_all add: add.commute)

lemma binary64_fix:
  assumes "2 ^ 52 \<le> n" "n \<le> 2 ^ 53"
  shows "binary64 (of_int n * 2 powi k) = of_int n * 2 powi k"
proof -
  let ?x = "(of_int n :: rat) * 2 powi k"
  have n0: "(0::rat) < of_int n" using assms(1) by simp
  have x0: "0 < ?x" using n0 by simp
  have n52: "(of_int (2 ^ 52) :: rat) \<le> of_int n" using assms(1) unfolding of_int_le_iff .
  show ?thesis
  proof (cases "n = 2 ^ 53")
    case True
    have x: "?x = 2 powi (k + 53)" unfolding True powi_52 by simp
    have "binade ?x = k + 53"
    proof (rule binade_unique [OF x0])
      show "2 powi (k + 53) \<le> ?x" unfolding x by simp
      have "(2::rat) powi (k + 53) < 2 powi (k + 53 + 1)"
        by (intro power_int_strict_increasing) simp_all
      then show "?x < 2 powi (k + 53 + 1)" unfolding x .
    qed
    moreover have "k + 53 - 52 = k + 1" by simp
    ultimately have "binary64 ?x = of_int (round_half_even (?x / 2 powi (k + 1))) * 2 powi (k + 1)"
      unfolding binary64_pos [OF x0] by (simp only:)
    moreover have "?x / 2 powi (k + 1) = of_int (2 ^ 52)"
      unfolding True powi_52 by simp
    ultimately show ?thesis unfolding True powi_52 by simp
  next
    case False
    then have "n < 2 ^ 53" using assms(2) by simp
    then have n53: "(of_int n :: rat) < of_int (2 ^ 53)" unfolding of_int_less_iff .
    have "binade ?x = k + 52"
    proof (rule binade_unique [OF x0])
      show "2 powi (k + 52) \<le> ?x" unfolding powi_52 using n52 by simp
      have "?x < 2 ^ 53 * 2 powi k" using n53 by simp
      then show "?x < 2 powi (k + 52 + 1)" using powi_52(2) [of k] by (simp add: add.commute)
    qed
    moreover have "k + 52 - 52 = k" by simp
    ultimately have "binary64 ?x = of_int (round_half_even (?x / 2 powi k)) * 2 powi k"
      unfolding binary64_pos [OF x0] by (simp only:)
    then show ?thesis by simp
  qed
qed

lemma binary64_idem:
  assumes "0 \<le> x"
  shows "binary64 (binary64 x) = binary64 x"
proof (cases "x = 0")
  case True
  then show ?thesis by (simp add: binary64_zero)
next
  case False
  then have x: "0 < x" using assms by simp
  show ?thesis
    unfolding binary64_pos [OF x] using mantissa_range [OF x] by (intro binary64_fix) simp_all
qed


lemma mantissa_scale:
  fixes i :: int
  assumes "0 < i" "i \<le> 2 ^ 53"
  shows "\<exists>j. 2 ^ 52 \<le> i * 2 ^ j \<and> i * 2 ^ j \<le> 2 ^ 53"
proof (cases "i = 2 ^ 53")
  case True
  then have "2 ^ 52 \<le> i * 2 ^ 0 \<and> i * 2 ^ 0 \<le> 2 ^ 53" by simp
  then show ?thesis by blast
next
  case False
  then have lt: "i < 2 ^ 53" using assms(2) by simp
  define b where "b = bitlen i"
  have b: "2 ^ nat (b - 1) \<le> i" "i < 2 ^ nat b"
    using bitlen_bounds [OF assms(1)] unfolding b_def by simp_all
  have b1: "1 \<le> b" using assms(1) unfolding b_def by (simp add: bitlen_def floorlog_def)
  have "(2::int) ^ nat (b - 1) < 2 ^ 53" using b(1) lt by linarith
  then have "nat (b - 1) < 53" by (simp only: power_strict_increasing_iff rel_simps)
  then have b53: "b \<le> 53" by simp
  define j where "j = nat (53 - b)"
  have "(2::int) ^ nat (b - 1) * 2 ^ j \<le> i * 2 ^ j" using b(1) by simp
  moreover have "nat (b - 1) + j = 52" using b1 b53 unfolding j_def by simp
  then have "(2::int) ^ nat (b - 1) * 2 ^ j = 2 ^ 52" by (simp add: power_add [symmetric])
  ultimately have lo: "2 ^ 52 \<le> i * 2 ^ j" by simp
  have "i * 2 ^ j < 2 ^ nat b * 2 ^ j" using b(2) by simp
  moreover have "nat b + j = 53" using b1 b53 unfolding j_def by simp
  then have "(2::int) ^ nat b * 2 ^ j = 2 ^ 53" by (simp add: power_add [symmetric])
  ultimately have hi: "i * 2 ^ j \<le> 2 ^ 53" by simp
  show ?thesis using lo hi by blast
qed

lemma binary64_dyadic:
  assumes "0 \<le> i" "i \<le> 2 ^ 53"
  shows "binary64 (of_int i / 2 ^ k) = of_int i / 2 ^ k"
proof (cases "i = 0")
  case True
  then show ?thesis by (simp add: binary64_zero)
next
  case False
  then have "0 < i" using assms(1) by simp
  then obtain j where j: "2 ^ 52 \<le> i * 2 ^ j" "i * 2 ^ j \<le> 2 ^ 53"
    using mantissa_scale [OF _ assms(2)] by blast
  have "(2::rat) powi (- int (k + j)) = inverse (2 ^ k * 2 ^ j)"
    unfolding power_int_minus power_int_of_nat power_add ..
  then have "(of_int i :: rat) / 2 ^ k = of_int (i * 2 ^ j) * 2 powi (- int (k + j))"
    by (simp add: field_simps)
  moreover have "binary64 (of_int (i * 2 ^ j) * 2 powi (- int (k + j)))
      = of_int (i * 2 ^ j) * 2 powi (- int (k + j))"
    by (rule binary64_fix [OF j])
  ultimately show ?thesis by simp
qed

lemma binary64_four_fifths: "4 / 5 \<le> binary64 (4 / 5)"
proof -
  have "binade (4 / 5) = - 1"
    by (rule binade_unique) simp_all
  then have "binary64 (4 / 5) = of_int (round_half_even (4 / 5 / 2 powi (- 53))) * 2 powi (- 53)"
    unfolding binary64_pos [of "4 / 5", simplified] by simp
  moreover have "round_half_even (4 / 5 / 2 powi (- 53)) = 7205759403792794"
  proof -
    have v: "(4::rat) / 5 / 2 powi (- 53) = 36028797018963968 / 5"
      by (simp add: power_int_minus)
    have f: "\<lfloor>(36028797018963968::rat) / 5\<rfloor> = 7205759403792793"
      by (simp add: floor_eq_iff)
    show ?thesis unfolding v round_half_even_def f Let_def by simp
  qed
  ultimately show ?thesis by (simp add: power_int_minus)
qed

lemma binary64_neg:
  assumes "x < 0" "2 powi k \<le> \<bar>x\<bar>"
  shows "binary64 x \<le> - (2 powi k)"
proof -
  let ?e = "binade \<bar>x\<bar>"
  let ?u = "(2::rat) powi (?e - 52)"
  have a: "0 < \<bar>x\<bar>" using assms(1) by simp
  note b = binade_bounds [OF a]
  have u: "0 < ?u" by simp
  have e1: "(2::rat) powi ?e = 2 ^ 52 * ?u"
    using power_int_add [of "2::rat" 52 "?e - 52"] by simp
  have ke: "k \<le> ?e"
  proof (rule ccontr)
    assume "\<not> k \<le> ?e"
    then have "(2::rat) powi (?e + 1) \<le> 2 powi k"
      by (intro power_int_increasing) simp_all
    then show False using assms(2) b by simp
  qed
  have "2 ^ 52 * ?u \<le> - x" using b assms(1) unfolding e1 by simp
  then have "x / ?u \<le> of_int (- (2 ^ 52))" using u by (simp add: pos_divide_le_eq)
  then have "round_half_even (x / ?u) \<le> - (2 ^ 52)"
    using round_half_even_mono [of "x / ?u" "of_int (- (2 ^ 52))"]
    unfolding round_half_even_of_int by simp
  then have "(of_int (round_half_even (x / ?u)) :: rat) \<le> of_int (- (2 ^ 52))"
    unfolding of_int_le_iff .
  then have "of_int (round_half_even (x / ?u)) * ?u \<le> of_int (- (2 ^ 52)) * ?u"
    by (rule mult_right_mono) (use u in simp)
  then have "of_int (round_half_even (x / ?u)) * ?u \<le> - (2 ^ 52 * ?u)"
    by simp
  then have "binary64 x \<le> - (2 powi ?e)"
    using assms(1) unfolding e1 by (simp add: binary64_def Let_def)
  moreover have "(2::rat) powi k \<le> 2 powi ?e"
    using ke by (intro power_int_increasing) simp_all
  ultimately show ?thesis by simp
qed

lemma float64_sound_binary64: "float64_sound binary64"
  unfolding float64_sound_def
  using binary64_mono binary64_idem binary64_dyadic binary64_four_fifths by blast

subsection \<open>The jitter\<close>

lemma float64_sound_mono: "float64_sound R \<Longrightarrow> 0 \<le> x \<Longrightarrow> x \<le> y \<Longrightarrow> R x \<le> R y"
  by (simp add: float64_sound_def)

lemma float64_sound_dyadic:
  "float64_sound R \<Longrightarrow> 0 \<le> i \<Longrightarrow> i \<le> 2 ^ 53 \<Longrightarrow> k \<le> 64
   \<Longrightarrow> R (of_int i / 2 ^ k) = of_int i / 2 ^ k"
  by (simp add: float64_sound_def)

lemma float64_sound_int:
  assumes "float64_sound R" "0 \<le> i" "i \<le> 2 ^ 53"
  shows "R (of_int i) = of_int i"
  using float64_sound_dyadic [OF assms, of 0] by simp

lemma randFloat_range:
  assumes "float64_sound (float64_round P)"
  shows "0 \<le> fst (randFloat P w) \<and> fst (randFloat P w) \<le> 16383 / 16384"
proof -
  let ?R = "float64_round P"
  let ?k = "unat (lcg w * 2862933555777941757 + 3037000493) mod 10000"
  have k: "?k < 10000" by simp
  have r: "fst (randFloat P w) = ?R (of_nat ?k / 10000)"
    by (simp add: randFloat_def Let_def)
  have "(of_nat ?k :: rat) \<le> 9999"
  proof -
    have "?k \<le> 9999" using k by linarith
    then have "(of_nat ?k :: rat) \<le> of_nat 9999" unfolding of_nat_le_iff .
    then show ?thesis by simp
  qed
  then have up: "(of_nat ?k :: rat) / 10000 \<le> of_int 16383 / 2 ^ 14" by simp
  have lo: "of_int 0 / 2 ^ 0 \<le> (of_nat ?k :: rat) / 10000" by simp
  have "?R (of_nat ?k / 10000) \<le> ?R (of_int 16383 / 2 ^ 14)"
    by (rule float64_sound_mono [OF assms _ up]) simp
  moreover have "?R (of_int 16383 / 2 ^ 14) = of_int 16383 / 2 ^ 14"
    by (rule float64_sound_dyadic [OF assms]) simp_all
  moreover have "?R (of_int 0 / 2 ^ 0) \<le> ?R (of_nat ?k / 10000)"
    by (rule float64_sound_mono [OF assms _ lo]) simp
  moreover have "?R (of_int 0 / 2 ^ 0) = of_int 0 / 2 ^ 0"
    by (rule float64_sound_dyadic [OF assms]) simp_all
  ultimately show ?thesis unfolding r by simp
qed


lemma jitter_range:
  assumes s: "float64_sound (float64_round P)"
    and r: "0 \<le> r" "r \<le> 16383 / 16384"
  shows "4 / 5 \<le> jitter P r \<and> jitter P r < 6 / 5"
proof -
  let ?R = "float64_round P"
  have z: "?R 0 = 0" using float64_sound_int [OF s, of 0] by simp
  have a_lo: "4 / 5 \<le> ?R (4 / 5)" using s by (simp add: float64_sound_def)
  have "?R (4 / 5) \<le> ?R (of_int 838861 / 2 ^ 20)"
    by (rule float64_sound_mono [OF s]) simp_all
  moreover have "?R (of_int 838861 / 2 ^ 20) = of_int 838861 / 2 ^ 20"
    by (rule float64_sound_dyadic [OF s]) simp_all
  ultimately have a_hi: "?R (4 / 5) \<le> 838861 / 1048576" by simp
  have "?R 0 \<le> ?R (2 / 5)" by (rule float64_sound_mono [OF s]) simp_all
  then have b_lo: "0 \<le> ?R (2 / 5)" using z by simp
  have "?R (2 / 5) \<le> ?R (of_int 419431 / 2 ^ 20)"
    by (rule float64_sound_mono [OF s]) simp_all
  moreover have "?R (of_int 419431 / 2 ^ 20) = of_int 419431 / 2 ^ 20"
    by (rule float64_sound_dyadic [OF s]) simp_all
  ultimately have b_hi: "?R (2 / 5) \<le> 419431 / 1048576" by simp
  have p_lo: "0 \<le> ?R (2 / 5) * r" using b_lo r(1) by simp
  have "?R (2 / 5) * r \<le> (419431 / 1048576) * (16383 / 16384)"
    by (rule mult_mono [OF b_hi r(2)]) (use r(1) in simp_all)
  then have p_hi: "?R (2 / 5) * r \<le> of_int 6871538073 / 2 ^ 34" by simp
  have "?R 0 \<le> ?R (?R (2 / 5) * r)" by (rule float64_sound_mono [OF s _ p_lo]) simp
  then have q_lo: "0 \<le> ?R (?R (2 / 5) * r)" using z by simp
  have "?R (?R (2 / 5) * r) \<le> ?R (of_int 6871538073 / 2 ^ 34)"
    by (rule float64_sound_mono [OF s p_lo p_hi])
  moreover have "?R (of_int 6871538073 / 2 ^ 34) = of_int 6871538073 / 2 ^ 34"
    by (rule float64_sound_dyadic [OF s]) simp_all
  ultimately have q_hi: "?R (?R (2 / 5) * r) \<le> 6871538073 / 17179869184" by simp
  have lo: "?R (4 / 5) \<le> ?R (4 / 5) + ?R (?R (2 / 5) * r)" using q_lo by simp
  have "?R (4 / 5) + ?R (?R (2 / 5) * r) \<le> 838861 / 1048576 + 6871538073 / 17179869184"
    using a_hi q_hi by (rule add_mono)
  then have hi: "?R (4 / 5) + ?R (?R (2 / 5) * r) \<le> of_int 20615436697 / 2 ^ 34" by simp
  have "?R (?R (4 / 5)) \<le> jitter P r"
    unfolding jitter_def by (rule float64_sound_mono [OF s _ lo]) (use a_lo in linarith)
  moreover have "?R (?R (4 / 5)) = ?R (4 / 5)"
    using s by (simp add: float64_sound_def)
  ultimately have j_lo: "4 / 5 \<le> jitter P r" using a_lo by simp
  have "jitter P r \<le> ?R (of_int 20615436697 / 2 ^ 34)"
    unfolding jitter_def by (rule float64_sound_mono [OF s _ hi]) (use a_lo q_lo in linarith)
  moreover have "?R (of_int 20615436697 / 2 ^ 34) = of_int 20615436697 / 2 ^ 34"
    by (rule float64_sound_dyadic [OF s]) simp_all
  ultimately have j_hi: "jitter P r < 6 / 5" by simp
  show ?thesis using j_lo j_hi by simp
qed


lemma wrap64_id: "- (2 ^ 63) \<le> x \<Longrightarrow> x < 2 ^ 63 \<Longrightarrow> wrap64 x = x"
  by (simp add: wrap64_def)

lemma backoff_no_overflow:
  assumes "0 \<le> mn" "mn * 2 ^ n < 2 ^ 63"
  shows "wrap64 (mn * wrap64 (2 ^ n)) = mn * 2 ^ n"
proof (cases "mn = 0")
  case True
  then show ?thesis by (simp add: wrap64_def)
next
  case False
  then have "1 \<le> mn" using assms(1) by simp
  then have "1 * (2::int) ^ n \<le> mn * 2 ^ n" by (rule mult_right_mono) simp
  then have "(2::int) ^ n < 2 ^ 63" using assms(2) by linarith
  moreover have "(0::int) \<le> 2 ^ n" by simp
  ultimately have "wrap64 (2 ^ n) = 2 ^ n" by (intro wrap64_id) linarith+
  moreover have "0 \<le> mn * 2 ^ n" using assms(1) by simp
  then have "wrap64 (mn * 2 ^ n) = mn * 2 ^ n"
    using assms(2) by (intro wrap64_id) linarith+
  ultimately show ?thesis by simp
qed

lemma backoff_value:
  "fst (backoff P n mn mx w) =
     float64_to_int64 P (float64_round P
       (float64_round P (of_int (let d0 = wrap64 (mn * wrap64 (2 ^ n)) in if d0 > mx then mx else d0))
        * jitter P (fst (randFloat P w))))"
  by (simp add: backoff_def Let_def split: prod.splits)

text \<open>
  Claim C4, as the code has it. Where \<^verbatim>\<open>min * (1 << attempt)\<close> stays in the 64-bit
  range, for bounds \<open>0 \<le> min \<le> max \<le> 2 ^ 49\<close> nanoseconds, \<^verbatim>\<open>backoff\<close> returns a whole
  number of nanoseconds \<open>j\<close> with \<open>0.8 * base - 1 < j \<le> 1.2 * base\<close>, where \<open>base\<close> is
  \<open>min * 2 ^ n\<close> clamped to \<open>max\<close>: the product with the jitter is cut to an integer.
  The delay is never negative, and the jitter multiplier lies in [0.8, 1.2] for every
  state of the generator.
\<close>

theorem backoff_within_jitter:
  assumes s: "float64_sound (float64_round P)"
    and mn: "0 \<le> mn" "mn \<le> mx" and mx: "mx \<le> 2 ^ 49"
    and ov: "mn * 2 ^ n < 2 ^ 63"
  shows "4 / 5 * of_int (base_delay n mn mx) - 1 < (of_int (fst (backoff P n mn mx w)) :: rat)
       \<and> (of_int (fst (backoff P n mn mx w)) :: rat) \<le> 6 / 5 * of_int (base_delay n mn mx)
       \<and> 0 \<le> fst (backoff P n mn mx w)
       \<and> 4 / 5 \<le> jitter P (fst (randFloat P w))
       \<and> jitter P (fst (randFloat P w)) \<le> 6 / 5"
proof -
  let ?R = "float64_round P"
  define d where "d = base_delay n mn mx"
  define m where "m = jitter P (fst (randFloat P w))"
  have d_eq: "(let d0 = wrap64 (mn * wrap64 (2 ^ n)) in if d0 > mx then mx else d0) = d"
    unfolding backoff_no_overflow [OF mn(1) ov] d_def base_delay_def Let_def by simp
  have d0: "0 \<le> d" using mn unfolding d_def base_delay_def by simp
  have d1: "d \<le> 2 ^ 49" using mx unfolding d_def base_delay_def by simp
  have m_rng: "4 / 5 \<le> m" "m < 6 / 5"
    using jitter_range [OF s] randFloat_range [OF s, of w] unfolding m_def by blast+
  have Rd: "?R (of_int d) = of_int d"
    by (rule float64_sound_int [OF s]) (use d0 d1 in simp_all)
  define x where "x = (of_int d :: rat) * m"
  have j: "fst (backoff P n mn mx w) = float64_to_int64 P (?R x)"
    unfolding backoff_value d_eq Rd x_def m_def ..
  define L where "L = (4 * d) div 5"
  define N where "N = (6 * d) div 5 + 1"
  have L0: "0 \<le> L" "L \<le> d" using d0 unfolding L_def by simp_all
  have L1: "(of_int L :: rat) \<le> 4 / 5 * of_int d"
  proof -
    have "5 * L \<le> 4 * d" unfolding L_def by simp
    then have "(of_int (5 * L) :: rat) \<le> of_int (4 * d)" unfolding of_int_le_iff .
    then show ?thesis by simp
  qed
  have L2: "4 / 5 * (of_int d :: rat) - 1 < of_int L"
  proof -
    have "4 * d < 5 * L + 5" unfolding L_def by presburger
    then have "(of_int (4 * d) :: rat) < of_int (5 * L + 5)" unfolding of_int_less_iff .
    then show ?thesis by simp
  qed
  have N1: "6 / 5 * (of_int d :: rat) + 1 / 5 \<le> of_int N"
  proof -
    have "6 * d + 1 \<le> 5 * N" unfolding N_def by presburger
    then have "(of_int (6 * d + 1) :: rat) \<le> of_int (5 * N)" unfolding of_int_le_iff .
    then show ?thesis by simp
  qed
  have N2: "(of_int N :: rat) - 1 \<le> 6 / 5 * of_int d"
  proof -
    have "5 * (N - 1) \<le> 6 * d" unfolding N_def by simp
    then have "(of_int (5 * (N - 1)) :: rat) \<le> of_int (6 * d)" unfolding of_int_le_iff .
    then show ?thesis by simp
  qed
  have N3: "0 < N" "8 * N - 1 \<le> 2 ^ 53" using d0 d1 unfolding N_def by simp_all
  have x_lo: "(of_int L :: rat) \<le> x"
  proof -
    have "4 / 5 * (of_int d :: rat) \<le> of_int d * m"
      using mult_left_mono [OF m_rng(1), of "of_int d"] d0 by simp
    then show ?thesis using L1 unfolding x_def by simp
  qed
  have x_hi: "x \<le> of_int (8 * N - 1) / 2 ^ 3"
  proof -
    have "(of_int d :: rat) * m \<le> of_int d * (6 / 5)"
      by (rule mult_left_mono) (use m_rng(2) d0 in simp_all)
    then have "x \<le> of_int N - 1 / 5" using N1 unfolding x_def by simp
    then show ?thesis by simp
  qed
  have x0: "0 \<le> x" using x_lo L0(1) by (meson of_int_0_le_iff order_trans)
  have "?R (of_int L) \<le> ?R x" by (rule float64_sound_mono [OF s _ x_lo]) (use L0 in simp)
  moreover have "?R (of_int L) = of_int L"
    by (rule float64_sound_int [OF s]) (use L0 d1 in simp_all)
  ultimately have Rx_lo: "of_int L \<le> ?R x" by simp
  have "?R x \<le> ?R (of_int (8 * N - 1) / 2 ^ 3)" by (rule float64_sound_mono [OF s x0 x_hi])
  moreover have "?R (of_int (8 * N - 1) / 2 ^ 3) = of_int (8 * N - 1) / 2 ^ 3"
    by (rule float64_sound_dyadic [OF s]) (use N3 in simp_all)
  ultimately have Rx_hi: "?R x < of_int N" by simp
  have fl_lo: "L \<le> \<lfloor>?R x\<rfloor>" using Rx_lo by (simp add: le_floor_iff)
  have fl_hi: "\<lfloor>?R x\<rfloor> < N" using Rx_hi by (simp add: floor_less_iff)
  have nonneg: "0 \<le> ?R x" using Rx_lo L0(1) by (meson of_int_0_le_iff order_trans)
  have "N \<le> 2 ^ 63" using N3(2) by simp
  then have "(of_int N :: rat) \<le> of_int (2 ^ 63)" unfolding of_int_le_iff .
  then have Rx_63: "?R x < 2 ^ 63" using Rx_hi by simp
  have Rx_m63: "- (2 ^ 63) \<le> ?R x" using nonneg by simp
  have conv: "float64_to_int64 P (?R x) = \<lfloor>?R x\<rfloor>"
    using nonneg Rx_63 Rx_m63 by (simp add: float64_to_int64_def Let_def le_floor_iff floor_less_iff)
  have a: "4 / 5 * (of_int d :: rat) - 1 < of_int \<lfloor>?R x\<rfloor>"
  proof -
    have "(of_int L :: rat) \<le> of_int \<lfloor>?R x\<rfloor>" using fl_lo unfolding of_int_le_iff .
    then show ?thesis using L2 by simp
  qed
  have b: "(of_int \<lfloor>?R x\<rfloor> :: rat) \<le> 6 / 5 * of_int d"
  proof -
    have "\<lfloor>?R x\<rfloor> \<le> N - 1" using fl_hi by simp
    then have "(of_int \<lfloor>?R x\<rfloor> :: rat) \<le> of_int (N - 1)" unfolding of_int_le_iff .
    then show ?thesis using N2 by simp
  qed
  have c: "0 \<le> \<lfloor>?R x\<rfloor>" using fl_lo L0(1) by linarith
  show ?thesis
    unfolding j conv d_def [symmetric] m_def [symmetric]
    using a b c m_rng by simp
qed


theorem backoff_within_jitter_witness:
  "float64_sound (float64_round test_platform)
   \<and> (0::int) \<le> 1000000 \<and> (1000000::int) \<le> 5000000 \<and> (5000000::int) \<le> 2 ^ 49
   \<and> (1000000::int) * 2 ^ 1 < 2 ^ 63
   \<and> base_delay 1 1000000 5000000 = 2000000
   \<and> 4 / 5 * of_int (base_delay 1 1000000 5000000) - 1
        < (of_int (fst (backoff test_platform 1 1000000 5000000 world0)) :: rat)
   \<and> (of_int (fst (backoff test_platform 1 1000000 5000000 world0)) :: rat)
        \<le> 6 / 5 * of_int (base_delay 1 1000000 5000000)
   \<and> 0 \<le> fst (backoff test_platform 1 1000000 5000000 world0)"
proof -
  have s: "float64_sound (float64_round test_platform)"
    using float64_sound_binary64 by (simp add: test_platform_def)
  have b: "base_delay 1 1000000 5000000 = 2000000" by (simp add: base_delay_def)
  show ?thesis
    using backoff_within_jitter [OF s, of 1000000 5000000 1 world0] s b by simp
qed

text \<open>
  Where the claim as the specification states it fails. The delay is a whole number of
  nanoseconds: with \<open>min = max = 1\<close> the base is 1, and \<^verbatim>\<open>backoff\<close> returns 0, below
  0.8. And \<^verbatim>\<open>min * (1 << attempt)\<close> wraps around in 64 bits: with the default bounds
  (250 ms, 4 s) the product is negative at attempt 36, stays below \<open>max\<close>, and the delay
  is negative; at attempt 64 the shift gives 0 and the delay is 0, where the interval of
  the claim is [3.2 s, 4.8 s].
\<close>

lemma backoff_one_ns:
  assumes s: "float64_sound (float64_round P)" and l: "lcg w = 0"
  shows "fst (backoff P 0 1 1 w) = 0"
proof -
  let ?R = "float64_round P"
  define r where "r = fst (randFloat P w)"
  have r: "r = ?R (493 / 10000)"
    unfolding r_def by (simp add: randFloat_def Let_def l)
  have z: "?R 0 = 0" using float64_sound_int [OF s, of 0] by simp
  have "?R 0 \<le> ?R (493 / 10000)" by (rule float64_sound_mono [OF s]) simp_all
  then have r_lo: "0 \<le> r" unfolding r z .
  have "?R (493 / 10000) \<le> ?R (of_int 1 / 2 ^ 4)" by (rule float64_sound_mono [OF s]) simp_all
  moreover have "?R (of_int 1 / 2 ^ 4) = of_int 1 / 2 ^ 4"
    by (rule float64_sound_dyadic [OF s]) simp_all
  ultimately have r_hi: "r \<le> 1 / 16" unfolding r by simp
  have a_lo: "4 / 5 \<le> ?R (4 / 5)" using s by (simp add: float64_sound_def)
  have "?R (4 / 5) \<le> ?R (of_int 838861 / 2 ^ 20)" by (rule float64_sound_mono [OF s]) simp_all
  moreover have "?R (of_int 838861 / 2 ^ 20) = of_int 838861 / 2 ^ 20"
    by (rule float64_sound_dyadic [OF s]) simp_all
  ultimately have a_hi: "?R (4 / 5) \<le> 838861 / 1048576" by simp
  have "?R 0 \<le> ?R (2 / 5)" by (rule float64_sound_mono [OF s]) simp_all
  then have b_lo: "0 \<le> ?R (2 / 5)" using z by simp
  have "?R (2 / 5) \<le> ?R (of_int 419431 / 2 ^ 20)" by (rule float64_sound_mono [OF s]) simp_all
  moreover have "?R (of_int 419431 / 2 ^ 20) = of_int 419431 / 2 ^ 20"
    by (rule float64_sound_dyadic [OF s]) simp_all
  ultimately have b_hi: "?R (2 / 5) \<le> 419431 / 1048576" by simp
  have p_lo: "0 \<le> ?R (2 / 5) * r" using b_lo r_lo by simp
  have "?R (2 / 5) * r \<le> (419431 / 1048576) * (1 / 16)"
    by (rule mult_mono [OF b_hi r_hi]) (use r_lo in simp_all)
  then have p_hi: "?R (2 / 5) * r \<le> of_int 419431 / 2 ^ 24" by simp
  have "?R 0 \<le> ?R (?R (2 / 5) * r)" by (rule float64_sound_mono [OF s _ p_lo]) simp
  then have q_lo: "0 \<le> ?R (?R (2 / 5) * r)" using z by simp
  have "?R (?R (2 / 5) * r) \<le> ?R (of_int 419431 / 2 ^ 24)"
    by (rule float64_sound_mono [OF s p_lo p_hi])
  moreover have "?R (of_int 419431 / 2 ^ 24) = of_int 419431 / 2 ^ 24"
    by (rule float64_sound_dyadic [OF s]) simp_all
  ultimately have q_hi: "?R (?R (2 / 5) * r) \<le> 419431 / 16777216" by simp
  have sum_lo: "0 \<le> ?R (4 / 5) + ?R (?R (2 / 5) * r)" using a_lo q_lo by linarith
  have "?R (4 / 5) + ?R (?R (2 / 5) * r) \<le> 838861 / 1048576 + 419431 / 16777216"
    using a_hi q_hi by (rule add_mono)
  then have sum_hi: "?R (4 / 5) + ?R (?R (2 / 5) * r) \<le> of_int 13841207 / 2 ^ 24" by simp
  have "jitter P r \<le> ?R (of_int 13841207 / 2 ^ 24)"
    unfolding jitter_def by (rule float64_sound_mono [OF s sum_lo sum_hi])
  moreover have "?R (of_int 13841207 / 2 ^ 24) = of_int 13841207 / 2 ^ 24"
    by (rule float64_sound_dyadic [OF s]) simp_all
  ultimately have m_hi: "jitter P r \<le> of_int 13841207 / 2 ^ 24" by simp
  have "?R 0 \<le> jitter P r"
    unfolding jitter_def by (rule float64_sound_mono [OF s _ sum_lo]) simp
  then have m_lo: "0 \<le> jitter P r" using z by simp
  have one: "?R (of_int 1) = of_int 1" by (rule float64_sound_int [OF s]) simp_all
  have "?R 0 \<le> ?R (jitter P r)" by (rule float64_sound_mono [OF s _ m_lo]) simp
  then have x_lo: "0 \<le> ?R (jitter P r)" using z by simp
  have "?R (jitter P r) \<le> ?R (of_int 13841207 / 2 ^ 24)"
    by (rule float64_sound_mono [OF s m_lo m_hi])
  moreover have "?R (of_int 13841207 / 2 ^ 24) = of_int 13841207 / 2 ^ 24"
    by (rule float64_sound_dyadic [OF s]) simp_all
  ultimately have x_hi: "?R (jitter P r) < 1" by simp
  have f: "\<lfloor>?R (jitter P r)\<rfloor> = 0" using x_lo x_hi by (simp add: floor_eq_iff)
  have "fst (backoff P 0 1 1 w) = float64_to_int64 P (?R (?R (of_int 1) * jitter P r))"
    unfolding backoff_value r_def by (simp add: wrap64_def)
  also have "\<dots> = float64_to_int64 P (?R (jitter P r))" unfolding one by simp
  also have "\<dots> = 0" using x_lo f by (simp add: float64_to_int64_def Let_def)
  finally show ?thesis .
qed

lemma backoff_attempt_64:
  assumes s: "float64_sound (float64_round P)" and "0 \<le> mx"
  shows "fst (backoff P 64 mn mx w) = 0"
proof -
  have z: "float64_round P 0 = 0" using float64_sound_int [OF s, of 0] by simp
  have "wrap64 (mn * wrap64 (2 ^ 64)) = 0" by (simp add: wrap64_def)
  then show ?thesis
    unfolding backoff_value using assms(2) z by (simp add: float64_to_int64_def)
qed

lemma backoff_attempt_36:
  "fst (backoff test_platform 36 (250 * Millisecond) (4 * Second) world0) < 0"
proof -
  let ?P = test_platform
  have s: "float64_sound (float64_round ?P)"
    using float64_sound_binary64 by (simp add: test_platform_def)
  define m where "m = jitter ?P (fst (randFloat ?P world0))"
  have m: "4 / 5 \<le> m"
    using jitter_range [OF s] randFloat_range [OF s, of world0] unfolding m_def by blast
  define a where "a = binary64 (of_int (- 1266874889709551616))"
  have a: "a \<le> - (2 powi 60)"
    unfolding a_def by (rule binary64_neg) simp_all
  have a': "a \<le> - 1152921504606846976" using a by simp
  have "a * m \<le> a * (4 / 5)"
    by (rule mult_left_mono_neg [OF m]) (use a' in simp)
  moreover have "a * (4 / 5) \<le> - 1152921504606846976 * (4 / 5)"
    using a' by simp
  ultimately have "a * m \<le> - 576460752303423488" by linarith
  then have am: "a * m \<le> - (2 powi 59)" by simp
  have "binary64 (a * m) \<le> - (2 powi 59)"
    by (rule binary64_neg) (use am in simp_all)
  then have b: "binary64 (a * m) \<le> of_int (- (2 ^ 59))" by simp
  then have c: "\<lceil>binary64 (a * m)\<rceil> \<le> - (2 ^ 59)"
    unfolding ceiling_le_iff .
  have d0: "wrap64 (250 * Millisecond * wrap64 (2 ^ 36)) = - 1266874889709551616"
    by (simp add: wrap64_def Millisecond_def)
  have "fst (backoff ?P 36 (250 * Millisecond) (4 * Second) world0)
      = float64_to_int64 ?P (binary64 (a * m))"
    unfolding backoff_value d0 a_def m_def by (simp add: test_platform_def Second_def)
  also have "\<dots> < 0"
    using b c by (simp add: float64_to_int64_def Let_def test_platform_def)
  finally show ?thesis .
qed

theorem backoff_truncates_and_overflows:
  "fst (backoff test_platform 0 1 1 world0) = 0
   \<and> \<not> 4 / 5 * of_int (base_delay 0 1 1) \<le> (of_int (fst (backoff test_platform 0 1 1 world0)) :: rat)
   \<and> 250 * Millisecond \<le> 4 * Second
   \<and> fst (backoff test_platform 36 (250 * Millisecond) (4 * Second) world0) < 0
   \<and> fst (backoff test_platform 64 (250 * Millisecond) (4 * Second) world0) = 0
   \<and> base_delay 64 (250 * Millisecond) (4 * Second) = 4 * Second"
proof -
  have s: "float64_sound (float64_round test_platform)"
    using float64_sound_binary64 by (simp add: test_platform_def)
  have a: "fst (backoff test_platform 0 1 1 world0) = 0"
    by (rule backoff_one_ns [OF s]) (simp add: world0_def)
  have b: "fst (backoff test_platform 64 (250 * Millisecond) (4 * Second) world0) = 0"
    by (rule backoff_attempt_64 [OF s]) (simp add: Second_def)
  show ?thesis
    using a b backoff_attempt_36 by (simp add: base_delay_def Millisecond_def Second_def)
qed

section \<open>Retry-After\<close>

text \<open>
  What \<^verbatim>\<open>Search\<close> sleeps before a retry: on a 429 or 5xx response with retries left,
  \<^verbatim>\<open>time.Duration(secs) * time.Second\<close> when \<^verbatim>\<open>Retry-After\<close> parses as \<open>secs > 0\<close>,
  and \<^verbatim>\<open>backoff(attempt, ...)\<close> otherwise. The product is taken in 64 bits; it is
  \<open>secs\<close> seconds up to 9223372036.
\<close>

lemma backoff_lcg:
  "lcg w1 = lcg w2 \<Longrightarrow> fst (backoff P n a b w1) = fst (backoff P n a b w2)"
  by (simp add: backoff_value randFloat_def Let_def)

lemma search_attempt_retry_delay:
  assumes "http_NewRequest P ''POST'' url (Some body) = None"
    and "http c (calls w) = DoResponse res"
    and "StatusCode res = 429 \<or> (500 \<le> StatusCode res \<and> StatusCode res \<le> 599)"
    and "int n < maxRetries c"
  shows "\<exists>w'. search_attempt P c url body n w = (Continue, w') \<and> calls w' = Suc (calls w)
     \<and> sleeps w' = sleeps w @
          [case strconv_Atoi (RetryAfter res) of
             Some s \<Rightarrow> if 0 < s then wrap64 (s * Second)
                       else fst (backoff P n (minBackoff c) (maxBackoff c) w)
           | None \<Rightarrow> fst (backoff P n (minBackoff c) (maxBackoff c) w)]"
proof -
  have e: "strconv_Atoi [] = None" by (simp add: strconv_Atoi_def)
  show ?thesis
    using assms e
    by (auto simp: search_attempt_def http_Do_def io_ReadAll_LimitReader_def
          sleep_backoff_frame time_Sleep_def Let_def
        split: option.splits intro!: backoff_lcg)
qed

lemma retry_after_in_range:
  "0 < s \<Longrightarrow> s \<le> 9223372036 \<Longrightarrow> wrap64 (s * Second) = s * Second"
  by (intro wrap64_id) (simp_all add: Second_def)

lemma Atoi_big: "strconv_Atoi ''9223372037'' = Some 9223372037"
  by (simp add: strconv_Atoi_def)

text \<open>
  Claim C3 says that \<^verbatim>\<open>Search\<close> sleeps exactly \<open>s\<close> seconds whenever \<^verbatim>\<open>Retry-After\<close>
  parses as a positive integer \<open>s\<close>. For \<^verbatim>\<open>Retry-After: 9223372037\<close> the product
  \<^verbatim>\<open>time.Duration(secs) * time.Second\<close> wraps around: the argument of \<^verbatim>\<open>time.Sleep\<close> is
  negative, and the retry follows at once.
\<close>

theorem retry_after_overflow:
  "RetryAfter \<lparr>StatusCode = 503, RetryAfter = ''9223372037'', Body = ''busy'', BodyErr = None\<rparr>
     = ''9223372037''
   \<and> strconv_Atoi ''9223372037'' = Some 9223372037
   \<and> Search test_platform (test_client (net_503_retry_after ''9223372037'')) test_request world0
     = (Inr ''ok'', world0\<lparr>calls := 2, sleeps := [- 9223372036709551616], reads := [4, 2]\<rparr>)
   \<and> - 9223372036709551616 \<noteq> 9223372037 * Second"
  using Atoi_big
  by (simp add: run_defs net_503_retry_after_def search_loop.simps wrap64_def)



end
